theory Spec2Isabelle
  imports Main "HOL-Library.Word"
begin

unbundle bit_operations_syntax

section \<open>Outcomes, errors and panics\<close>

text \<open>
  A Go function of this package either returns normally (with a nil or a non-nil error
  value) or panics. Both kinds of failure are values of \<open>fault\<close>: \<open>Err e\<close> is a
  returned error value, \<open>Panic p\<close> is a run-time panic that unwinds the caller,
  \<open>Diverge\<close> is a call that never returns.
  State that outlives a failure (the transport, the byte stream, a color map that is
  updated in place) is returned beside the result: a stateful operation has the type
  \<open>'s \<Rightarrow> (fault + 'a) \<times> 's\<close>.
\<close>

datatype error =
    ShortRead               \<comment> \<open>io.EOF / io.ErrUnexpectedEOF of io.ReadFull\<close>
  | TransportError          \<comment> \<open>a failing net.Conn write, a failing net.Dial\<close>
  | ScanError               \<comment> \<open>the error of fmt.Sscanf\<close>
  | InvalidVersionFormat    \<comment> \<open>"Invalid Protocol Version format."\<close>
  | UnsupportedVersion      \<comment> \<open>"Unsupported Protocol Version."\<close>
  | OutOfRange              \<comment> \<open>"error occurred while updating color map"\<close>
  | InvalidText             \<comment> \<open>"Character ... is not valid Latin-1"\<close>
  | InvalidKey              \<comment> \<open>des.KeySizeError\<close>

datatype panic =
    SliceBounds             \<comment> \<open>slice bounds out of range\<close>
  | IndexRange              \<comment> \<open>index out of range\<close>
  | NilMapAssign            \<comment> \<open>assignment to entry in nil map\<close>
  | NilDeref                \<comment> \<open>nil pointer dereference\<close>
  | MakeSlice               \<comment> \<open>makeslice: len or cap out of range\<close>
  | ShortBlock              \<comment> \<open>crypto/des: input not full block\<close>

datatype fault = Err error | Panic panic | Diverge

type_synonym byte = "8 word"
type_synonym u16 = "16 word"
type_synonym u32 = "32 word"

definition bind_io ::
  "('s \<Rightarrow> (fault + 'a) \<times> 's) \<Rightarrow> ('a \<Rightarrow> 's \<Rightarrow> (fault + 'b) \<times> 's) \<Rightarrow> 's \<Rightarrow> (fault + 'b) \<times> 's"
where
  "bind_io m f s = (case m s of (Inl e, s') \<Rightarrow> (Inl e, s') | (Inr a, s') \<Rightarrow> f a s')"

section \<open>Wire codec\<close>

text \<open>
  The reader of a connection is the list of bytes the server has still to deliver.
  \<open>io.ReadFull\<close> of \<open>n\<close> bytes takes them from the front; when fewer are left it
  consumes what there is and returns the end-of-file error.
\<close>

definition ReadFull :: "nat \<Rightarrow> byte list \<Rightarrow> (fault + byte list) \<times> byte list" where
  "ReadFull n s = (if length s < n then (Inl (Err ShortRead), []) else (Inr (take n s), drop n s))"

text \<open>
  Modelled from the spec: \<open>readFixedSize\<close> and \<open>writeFixedSize\<close> are called
  throughout the package and are not among the source files. Section 4.1 of the
  specification: fixed-width scalars in network byte order (big-endian), composite
  values as the concatenation of their fields in declared order, \<open>ShortRead\<close> when the
  stream ends before a field completes.
\<close>

definition be16 :: "byte list \<Rightarrow> u16" where
  "be16 bs = push_bit 8 (ucast (bs ! 0)) OR ucast (bs ! 1)"

definition be32 :: "byte list \<Rightarrow> u32" where
  "be32 bs = push_bit 24 (ucast (bs ! 0)) OR push_bit 16 (ucast (bs ! 1))
             OR push_bit 8 (ucast (bs ! 2)) OR ucast (bs ! 3)"

definition le16 :: "byte list \<Rightarrow> u16" where
  "le16 bs = push_bit 8 (ucast (bs ! 1)) OR ucast (bs ! 0)"

definition le32 :: "byte list \<Rightarrow> u32" where
  "le32 bs = push_bit 24 (ucast (bs ! 3)) OR push_bit 16 (ucast (bs ! 2))
             OR push_bit 8 (ucast (bs ! 1)) OR ucast (bs ! 0)"

definition put_be16 :: "u16 \<Rightarrow> byte list" where
  "put_be16 v = [ucast (drop_bit 8 v), ucast v]"

definition put_be32 :: "u32 \<Rightarrow> byte list" where
  "put_be32 v = [ucast (drop_bit 24 v), ucast (drop_bit 16 v), ucast (drop_bit 8 v), ucast v]"

definition read_u8 :: "byte list \<Rightarrow> (fault + byte) \<times> byte list" where
  "read_u8 = bind_io (ReadFull 1) (\<lambda>bs s. (Inr (bs ! 0), s))"

definition read_u16 :: "byte list \<Rightarrow> (fault + u16) \<times> byte list" where
  "read_u16 = bind_io (ReadFull 2) (\<lambda>bs s. (Inr (be16 bs), s))"

definition read_u32 :: "byte list \<Rightarrow> (fault + u32) \<times> byte list" where
  "read_u32 = bind_io (ReadFull 4) (\<lambda>bs s. (Inr (be32 bs), s))"

section \<open>Pixel format and color map (pixel.go)\<close>

record Color =
  R :: u16
  G :: u16
  B :: u16

type_synonym ColorMap = "Color list"

datatype ByteOrder = LittleEndian | BigEndian

record RFBPixelFormat =
  BPP :: byte
  Depth :: byte
  BigEndianFlag :: byte
  TrueColor :: byte
  RedMax :: u16
  GreenMax :: u16
  BlueMax :: u16
  RedShift :: byte
  GreenShift :: byte
  BlueShift :: byte

text \<open>
  \<open>PixelFormat\<close> embeds the wire record, the derived bytes per pixel and byte order,
  and the color map. A nil color map is the empty list; a color map made by
  \<open>make([]Color, 256)\<close> has length and capacity 256.
\<close>

record PixelFormat =
  ByPP :: byte
  Order :: ByteOrder
  rfb :: RFBPixelFormat
  ColorMap :: ColorMap

definition zeroColor :: Color where
  "zeroColor = \<lparr>R = 0, G = 0, B = 0\<rparr>"

definition NewPixelFormat :: "RFBPixelFormat \<Rightarrow> PixelFormat" where
  "NewPixelFormat rpf =
     \<lparr>ByPP = BPP rpf div 8,
      Order = (if BigEndianFlag rpf = 0 then LittleEndian else BigEndian),
      rfb = rpf,
      ColorMap = (if TrueColor rpf = 0 then replicate 256 zeroColor else [])\<rparr>"

text \<open>
  \<open>scaleToUint8\<close> computes \<open>uint8(float64(num)*255/float64(max) + 0.5)\<close>. Its callers
  pass \<open>num \<le> max \<le> 65535\<close>; there \<open>num * 255\<close> is exact in float64, the quotient
  differs from a half-integer by at least \<open>1 / (2 * max)\<close> unless it is one, and the
  truncation is the floor of the exact rational \<open>(2 * num * 255 + max) / (2 * max)\<close>,
  which is what the definition computes. For \<open>max = 0\<close> the Go expression converts NaN
  or infinity to an integer, which the language leaves to the implementation; the value 0
  given here for that case is a placeholder that no theorem below relies on.
\<close>

definition scaleToUint8 :: "u32 \<Rightarrow> u16 \<Rightarrow> byte" where
  "scaleToUint8 num mx =
     (if mx = 0 then 0
      else of_nat ((2 * unat num * 255 + unat mx) div (2 * unat mx)))"

text \<open>
  \<open>pixelToRGB\<close>: the pixel value is assembled by a switch on the bytes per pixel that
  has no default case, so any other size leaves it 0. Indexing the buffer or the color
  map out of range panics.
\<close>

definition pixelValue :: "PixelFormat \<Rightarrow> byte list \<Rightarrow> fault + u32" where
  "pixelValue pf buffer =
     (if ByPP pf = 1 then
        (if length buffer < 1 then Inl (Panic IndexRange) else Inr (ucast (buffer ! 0)))
      else if ByPP pf = 2 then
        (if length buffer < 2 then Inl (Panic IndexRange)
         else Inr (ucast (case Order pf of BigEndian \<Rightarrow> be16 buffer | LittleEndian \<Rightarrow> le16 buffer)))
      else if ByPP pf = 4 then
        (if length buffer < 4 then Inl (Panic IndexRange)
         else Inr (case Order pf of BigEndian \<Rightarrow> be32 buffer | LittleEndian \<Rightarrow> le32 buffer))
      else Inr 0)"

definition pixelToRGB :: "PixelFormat \<Rightarrow> byte list \<Rightarrow> fault + (byte \<times> byte \<times> byte)" where
  "pixelToRGB pf buffer =
     (case pixelValue pf buffer of
        Inl e \<Rightarrow> Inl e
      | Inr pixel \<Rightarrow>
          if TrueColor (rfb pf) \<noteq> 0 then
            Inr (scaleToUint8 (drop_bit (unat (RedShift (rfb pf))) pixel AND ucast (RedMax (rfb pf)))
                              (RedMax (rfb pf)),
                 scaleToUint8 (drop_bit (unat (GreenShift (rfb pf))) pixel AND ucast (GreenMax (rfb pf)))
                              (GreenMax (rfb pf)),
                 scaleToUint8 (drop_bit (unat (BlueShift (rfb pf))) pixel AND ucast (BlueMax (rfb pf)))
                              (BlueMax (rfb pf)))
          else
            (let cm = ColorMap pf in
             if length cm \<le> unat pixel then Inl (Panic IndexRange)
             else Inr (scaleToUint8 (ucast (R (cm ! unat pixel))) 65535,
                       scaleToUint8 (ucast (G (cm ! unat pixel))) 65535,
                       scaleToUint8 (ucast (B (cm ! unat pixel))) 65535)))"

text \<open>
  \<open>ReadPixels\<close>: the loop \<open>for i := 0; i < rgbaSize; i += 4\<close> runs once per pixel; each
  round reads one pixel from the stream and stores its three channels and the alpha 255.
  The buffer is built front to back, so the recursion returns the bytes of the pixels
  still to read. \<open>numPixels\<close> is a Go int: a negative one makes \<open>make\<close> panic.
\<close>

fun readPixelsLoop :: "PixelFormat \<Rightarrow> nat \<Rightarrow> byte list \<Rightarrow> (fault + byte list) \<times> byte list" where
  "readPixelsLoop pf 0 s = (Inr [], s)"
| "readPixelsLoop pf (Suc n) s =
     (case ReadFull (unat (ByPP pf)) s of
        (Inl e, s') \<Rightarrow> (Inl e, s')
      | (Inr pixelBuffer, s') \<Rightarrow>
          (case pixelToRGB pf pixelBuffer of
             Inl e \<Rightarrow> (Inl e, s')
           | Inr (r, g, b) \<Rightarrow>
               (case readPixelsLoop pf n s' of
                  (Inl e, s'') \<Rightarrow> (Inl e, s'')
                | (Inr rest, s'') \<Rightarrow> (Inr ([r, g, b, 255] @ rest), s''))))"

definition ReadPixels :: "PixelFormat \<Rightarrow> int \<Rightarrow> byte list \<Rightarrow> (fault + byte list) \<times> byte list" where
  "ReadPixels pf numPixels s =
     (if numPixels < 0 then (Inl (Panic MakeSlice), s) else readPixelsLoop pf (nat numPixels) s)"

text \<open>
  \<open>UpdateColorMap\<close>: the slice expression \<open>cm[int(firstColor):int(firstColor)+n]\<close> is
  evaluated first and panics when its upper bound exceeds the capacity of \<open>cm\<close>;
  \<open>copy\<close> then copies \<open>min (len dst) (len src)\<close> elements into the shared backing array
  and the function returns an error when that count is not \<open>n\<close>.
\<close>

definition UpdateColorMap :: "u16 \<Rightarrow> Color list \<Rightarrow> ColorMap \<Rightarrow> (fault + unit) \<times> ColorMap" where
  "UpdateColorMap firstColor colors cm =
     (let n = length colors; lo = unat firstColor; hi = lo + n in
      if length cm < hi then (Inl (Panic SliceBounds), cm)
      else
        (let copied = min (hi - lo) n;
             cm' = take lo cm @ take copied colors @ drop (lo + copied) cm
         in if copied \<noteq> n then (Inl (Err OutOfRange), cm') else (Inr (), cm')))"

section \<open>Encodings, messages and the connection (encoding.go, message.go, client.go)\<close>

type_synonym EncodingType = "32 word"   \<comment> \<open>int32\<close>
type_synonym MessageID = byte
type_synonym SecurityType = byte

definition RawEncType :: EncodingType where "RawEncType = 0"
definition CopyRectEncType :: EncodingType where "CopyRectEncType = 1"
definition HextileEncType :: EncodingType where "HextileEncType = 5"
definition DesktopSizePseudoEncType :: EncodingType where "DesktopSizePseudoEncType = - 223"
definition CursorPseudoEncType :: EncodingType where "CursorPseudoEncType = - 239"

text \<open>
  \<open>Encoding\<close> is an interface: besides the five implementations of the package a
  caller may register its own, which is \<open>OtherEncoding\<close> with the type code it reports.
  The payloads are the decoded data each implementation stores.
\<close>

datatype Encoding =
    RawEncoding "byte list"
  | CopyRectEncoding u16 u16
  | DesktopSizePseudoEncoding
  | CursorPseudoEncoding "byte list"
  | HextileEncoding "byte list"
  | OtherEncoding EncodingType

fun Type :: "Encoding \<Rightarrow> EncodingType" where
  "Type (RawEncoding _) = RawEncType"
| "Type (CopyRectEncoding _ _) = CopyRectEncType"
| "Type DesktopSizePseudoEncoding = DesktopSizePseudoEncType"
| "Type (CursorPseudoEncoding _) = CursorPseudoEncType"
| "Type (HextileEncoding _) = HextileEncType"
| "Type (OtherEncoding t) = t"

record Rectangle =
  X :: u16
  Y :: u16
  Width :: u16
  Height :: u16

datatype ServerMessage =
    FramebufferUpdateMsg "(Rectangle \<times> Encoding) list"
  | SetColorMapEntriesMsg u16 ColorMap
  | BellMsg
  | ServerCutTextMsg "byte list"
  | OtherServerMessage MessageID

definition FramebufferUpdateMID :: MessageID where "FramebufferUpdateMID = 0"
definition SetColorMapEntriesMID :: MessageID where "SetColorMapEntriesMID = 1"
definition BellMID :: MessageID where "BellMID = 2"
definition ServerCutTextMID :: MessageID where "ServerCutTextMID = 3"

fun ID :: "ServerMessage \<Rightarrow> MessageID" where
  "ID (FramebufferUpdateMsg _) = FramebufferUpdateMID"
| "ID (SetColorMapEntriesMsg _ _) = SetColorMapEntriesMID"
| "ID BellMsg = BellMID"
| "ID (ServerCutTextMsg _) = ServerCutTextMID"
| "ID (OtherServerMessage i) = i"

datatype ClientAuth = NoneAuth | VNCAuth "byte list"

definition InvalidSecType :: SecurityType where "InvalidSecType = 0"
definition NoneSecType :: SecurityType where "NoneSecType = 1"
definition VNCSecType :: SecurityType where "VNCSecType = 2"

fun authType :: "ClientAuth \<Rightarrow> SecurityType" where
  "authType NoneAuth = NoneSecType"
| "authType (VNCAuth _) = VNCSecType"

text \<open>
  In \<open>ClientConnConfig\<close> a nil slice and a nil map are \<open>None\<close>; \<open>Some\<close> holds an
  allocated one (possibly empty). Go reads a nil map like an empty one and panics on
  assigning to it.
\<close>

record ClientConnConfig =
  Address :: string
  Auth :: "ClientAuth list option"
  Exclusive :: bool
  ServerMessages :: "(MessageID \<rightharpoonup> ServerMessage) option"

text \<open>
  The transport \<open>net.Conn\<close>: the bytes the server still sends, the bytes written so far,
  and whether a write succeeds. A write either appends all its bytes or fails with
  nothing written.
\<close>

record NetConn =
  incoming :: "byte list"
  sent :: "byte list"
  writable :: bool

text \<open>
  \<open>ClientConn\<close>: \<open>c\<close> is the transport; the buffered reader \<open>c.r\<close> wraps it, so
  reading through \<open>r\<close> consumes \<open>incoming (c conn)\<close>. \<open>pixelFormat\<close> is a pointer
  that is nil until the handshake or a SetPixelFormat message sets it.
\<close>

record ClientConn =
  c :: NetConn
  config :: ClientConnConfig
  protocolVersion :: "byte list"
  securityType :: SecurityType
  encodingMap :: "EncodingType \<rightharpoonup> Encoding"
  pixelFormat :: "PixelFormat option"
  FrameBufferWidth :: u16
  FrameBufferHeight :: u16
  DesktopName :: "byte list"

definition connWrite :: "byte list \<Rightarrow> ClientConn \<Rightarrow> (fault + unit) \<times> ClientConn" where
  "connWrite bs conn =
     (if writable (c conn) then (Inr (), conn\<lparr>c := (c conn)\<lparr>sent := sent (c conn) @ bs\<rparr>\<rparr>)
      else (Inl (Err TransportError), conn))"

definition onReader ::
  "(byte list \<Rightarrow> (fault + 'a) \<times> byte list) \<Rightarrow> ClientConn \<Rightarrow> (fault + 'a) \<times> ClientConn"
where
  "onReader m conn =
     (case m (incoming (c conn)) of (res, s') \<Rightarrow> (res, conn\<lparr>c := (c conn)\<lparr>incoming := s'\<rparr>\<rparr>))"

text \<open>
  \<open>NewClientConn(cfg, c)\<close>: \<open>net.Dial\<close> is the environment's, so its outcome for the
  configured address is the parameter \<open>dial\<close>. The four required messages are stored
  into \<open>cfg.ServerMessages\<close> by map assignment. The configuration is taken by pointer
  and assumed non-nil; the updated configuration is the \<open>config\<close> of the result.
\<close>

definition requiredMessages :: "ServerMessage list" where
  "requiredMessages = [FramebufferUpdateMsg [], SetColorMapEntriesMsg 0 [], BellMsg, ServerCutTextMsg []]"

fun registerMessages ::
  "ServerMessage list \<Rightarrow> (MessageID \<rightharpoonup> ServerMessage) option \<Rightarrow> fault + (MessageID \<rightharpoonup> ServerMessage) option"
where
  "registerMessages [] sm = Inr sm"
| "registerMessages (m # ms) None = Inl (Panic NilMapAssign)"
| "registerMessages (m # ms) (Some tab) = registerMessages ms (Some (tab(ID m \<mapsto> m)))"

definition transport :: "(string \<Rightarrow> error + NetConn) \<Rightarrow> ClientConnConfig \<Rightarrow> NetConn option \<Rightarrow> fault + NetConn" where
  "transport dial cfg conn0 =
     (case conn0 of
        None \<Rightarrow> (case dial (Address cfg) of Inl e \<Rightarrow> Inl (Err e) | Inr nc \<Rightarrow> Inr nc)
      | Some nc \<Rightarrow> Inr nc)"

definition NewClientConn ::
  "(string \<Rightarrow> error + NetConn) \<Rightarrow> ClientConnConfig \<Rightarrow> NetConn option \<Rightarrow> fault + ClientConn"
where
  "NewClientConn dial cfg conn0 =
     (case transport dial cfg conn0 of
        Inl e \<Rightarrow> Inl e
      | Inr nc \<Rightarrow>
          (let cfg1 = (if Auth cfg = None then cfg\<lparr>Auth := Some [NoneAuth]\<rparr> else cfg) in
           case registerMessages requiredMessages (ServerMessages cfg1) of
             Inl e \<Rightarrow> Inl e
           | Inr sm \<Rightarrow>
               Inr \<lparr>c = nc,
                    config = cfg1\<lparr>ServerMessages := sm\<rparr>,
                    protocolVersion = [],
                    securityType = 0,
                    encodingMap = [RawEncType \<mapsto> RawEncoding []],
                    pixelFormat = None,
                    FrameBufferWidth = 0,
                    FrameBufferHeight = 0,
                    DesktopName = []\<rparr>))"

section \<open>Client messages (message_client.go)\<close>

definition SetPixelFormatMID :: MessageID where "SetPixelFormatMID = 0"
definition SetEncodingsMID :: MessageID where "SetEncodingsMID = 2"
definition ClientCutTextMID :: MessageID where "ClientCutTextMID = 6"

record SetPixelFormatMsg =
  spf_ID :: MessageID
  spf_format :: RFBPixelFormat

definition put_RFBPixelFormat :: "RFBPixelFormat \<Rightarrow> byte list" where
  "put_RFBPixelFormat f =
     [BPP f, Depth f, BigEndianFlag f, TrueColor f] @ put_be16 (RedMax f) @ put_be16 (GreenMax f)
     @ put_be16 (BlueMax f) @ [RedShift f, GreenShift f, BlueShift f, 0, 0, 0]"

definition SetPixelFormatMsg_Send :: "SetPixelFormatMsg \<Rightarrow> ClientConn \<Rightarrow> (fault + unit) \<times> ClientConn" where
  "SetPixelFormatMsg_Send m conn =
     (case connWrite ([spf_ID m, 0, 0, 0] @ put_RFBPixelFormat (spf_format m)) conn of
        (Inl e, conn') \<Rightarrow> (Inl e, conn')
      | (Inr _, conn') \<Rightarrow> (Inr (), conn'\<lparr>pixelFormat := Some (NewPixelFormat (spf_format m))\<rparr>))"

text \<open>
  \<open>SetEncodingsMsg.Send\<close>: the new map starts from Raw and receives every listed
  encoding under its type code, a later entry replacing an earlier one with the same
  code. The connection's map is replaced only after the write has succeeded. The count
  on the wire is \<open>uint16(numEncs)\<close>. The listed encodings are non-nil interface values.
\<close>

record SetEncodingsMsg =
  se_ID :: MessageID
  Encodings :: "Encoding list"

fun addEncodings :: "Encoding list \<Rightarrow> (EncodingType \<rightharpoonup> Encoding) \<Rightarrow> (EncodingType \<rightharpoonup> Encoding)" where
  "addEncodings [] encMap = encMap"
| "addEncodings (e # es) encMap = addEncodings es (encMap(Type e \<mapsto> e))"

definition SetEncodingsMsg_Send :: "SetEncodingsMsg \<Rightarrow> ClientConn \<Rightarrow> (fault + unit) \<times> ClientConn" where
  "SetEncodingsMsg_Send m conn =
     (let numEncs = length (Encodings m);
          encTypes = map Type (Encodings m);
          encMap = addEncodings (Encodings m) [RawEncType \<mapsto> RawEncoding []];
          buf = [se_ID m, 0];
          w = buf @ put_be16 (of_nat numEncs) @ concat (map put_be32 encTypes)
      in case connWrite w conn of
           (Inl e, conn') \<Rightarrow> (Inl e, conn')
         | (Inr _, conn') \<Rightarrow> (Inr (), conn'\<lparr>encodingMap := encMap\<rparr>))"

text \<open>
  UTF-8 decoding as Go's \<open>range\<close> over a string does it (utf8.DecodeRuneInString): a
  well-formed sequence yields its code point and width; anything else, including
  overlong forms, surrogates and a truncated sequence, yields U+FFFD and width 1.
\<close>

definition RuneError :: nat where "RuneError = 0xFFFD"

definition cont :: "byte \<Rightarrow> nat" where
  "cont b = unat (b AND 0x3F)"

fun DecodeRune :: "byte list \<Rightarrow> nat \<times> nat" where
  "DecodeRune [] = (RuneError, 0)"
| "DecodeRune (b0 # bs) =
     (let x = unat b0 in
      if x < 0x80 then (x, 1)
      else if 0xC2 \<le> x \<and> x \<le> 0xDF then
        (case bs of
           b1 # _ \<Rightarrow> if 0x80 \<le> unat b1 \<and> unat b1 \<le> 0xBF
                      then ((x - 0xC0) * 64 + cont b1, 2) else (RuneError, 1)
         | _ \<Rightarrow> (RuneError, 1))
      else if 0xE0 \<le> x \<and> x \<le> 0xEF then
        (case bs of
           b1 # b2 # _ \<Rightarrow>
             if (if x = 0xE0 then 0xA0 else 0x80) \<le> unat b1
                \<and> unat b1 \<le> (if x = 0xED then 0x9F else 0xBF)
                \<and> 0x80 \<le> unat b2 \<and> unat b2 \<le> 0xBF
             then ((x - 0xE0) * 4096 + cont b1 * 64 + cont b2, 3) else (RuneError, 1)
         | _ \<Rightarrow> (RuneError, 1))
      else if 0xF0 \<le> x \<and> x \<le> 0xF4 then
        (case bs of
           b1 # b2 # b3 # _ \<Rightarrow>
             if (if x = 0xF0 then 0x90 else 0x80) \<le> unat b1
                \<and> unat b1 \<le> (if x = 0xF4 then 0x8F else 0xBF)
                \<and> 0x80 \<le> unat b2 \<and> unat b2 \<le> 0xBF
                \<and> 0x80 \<le> unat b3 \<and> unat b3 \<le> 0xBF
             then ((x - 0xF0) * 262144 + cont b1 * 4096 + cont b2 * 64 + cont b3, 4)
             else (RuneError, 1)
         | _ \<Rightarrow> (RuneError, 1))
      else (RuneError, 1))"

lemma DecodeRune_width: "DecodeRune (b # bs) = (r, w) \<Longrightarrow> 0 < w \<and> w \<le> 4"
  by (auto simp: Let_def split: if_splits list.splits)

function runes :: "byte list \<Rightarrow> nat list" where
  "runes [] = []"
| "runes (b # bs) = (case DecodeRune (b # bs) of (r, w) \<Rightarrow> r # runes (drop w (b # bs)))"
  by pat_completeness auto
termination
  apply (relation "measure length")
   apply simp
  apply (metis DecodeRune_width diff_less in_measure length_drop length_greater_0_conv list.distinct(1))
  done

definition MaxLatin1 :: nat where "MaxLatin1 = 0xFF"

text \<open>
  \<open>ClientCutTextMsg.Send\<close>: the loop returns the error at the first rune above
  \<open>unicode.MaxLatin1\<close>, before anything is written. The length field and the capacity
  \<open>8 + textLength\<close> of the buffer are uint32 and wrap; \<open>make([]byte, 4, cap)\<close> panics
  when the capacity is below the length 4. The bytes sent are those of the Go string.
\<close>

record ClientCutTextMsg =
  cct_ID :: MessageID
  Text :: "byte list"

definition ClientCutTextMsg_Send :: "ClientCutTextMsg \<Rightarrow> ClientConn \<Rightarrow> (fault + unit) \<times> ClientConn" where
  "ClientCutTextMsg_Send m conn =
     (if \<exists>char \<in> set (runes (Text m)). MaxLatin1 < char then (Inl (Err InvalidText), conn)
      else
        (let textBytes = Text m;
             textLength = (of_nat (length textBytes) :: u32)
         in if unat (8 + textLength) < 4 then (Inl (Panic MakeSlice), conn)
            else
              (let buf = [cct_ID m, 0, 0, 0];
                   w = buf @ put_be32 textLength @ textBytes
               in connWrite w conn)))"

section \<open>Server messages (message_server.go)\<close>

text \<open>
  \<open>SetColorMapEntriesMsg.Receive\<close>: one padding byte, the first color, the count, then
  the colors, three big-endian u16 each, read as one block of \<open>6 * numColors\<close> bytes.
\<close>

fun decodeColors :: "byte list \<Rightarrow> Color list" where
  "decodeColors (r1 # r0 # g1 # g0 # b1 # b0 # rest) =
     \<lparr>R = be16 [r1, r0], G = be16 [g1, g0], B = be16 [b1, b0]\<rparr> # decodeColors rest"
| "decodeColors _ = []"

definition read_Colors :: "nat \<Rightarrow> byte list \<Rightarrow> (fault + Color list) \<times> byte list" where
  "read_Colors n = bind_io (ReadFull (6 * n)) (\<lambda>bs s. (Inr (decodeColors bs), s))"

definition SetColorMapEntriesMsg_Receive :: "ClientConn \<Rightarrow> (fault + ServerMessage) \<times> ClientConn" where
  "SetColorMapEntriesMsg_Receive =
     onReader
       (bind_io (ReadFull 1) (\<lambda>padding.
        bind_io read_u16 (\<lambda>firstColor.
        bind_io read_u16 (\<lambda>numColors.
        bind_io (read_Colors (unat numColors)) (\<lambda>colors s.
          (Inr (SetColorMapEntriesMsg firstColor colors), s))))))"

section \<open>Handshake: protocol version (handshake.go)\<close>

definition bytes_of :: "string \<Rightarrow> byte list" where
  "bytes_of str = map of_char str"

definition ProtocolVersion3_3 :: "byte list" where
  "ProtocolVersion3_3 = bytes_of ''RFB 003.003'' @ [0x0A]"

definition ProtocolVersion3_7 :: "byte list" where
  "ProtocolVersion3_7 = bytes_of ''RFB 003.007'' @ [0x0A]"

definition ProtocolVersion3_8 :: "byte list" where
  "ProtocolVersion3_8 = bytes_of ''RFB 003.008'' @ [0x0A]"

text \<open>
  \<open>fmt.Sscanf(str, "RFB %d.%d\n", &major, &minor)\<close> belongs to the Go standard
  library. The model follows its scanning rules for this one format, on the runes of the
  input: the literals \<open>R\<close>, \<open>F\<close>, \<open>B\<close> and \<open>.\<close> must match; the blank of the
  format matches one or more blanks other than a newline (or the end of the input);
  \<open>%d\<close> skips blanks, fails on a newline, takes an optional sign and at least one
  decimal digit (an underscore is scanned and then rejected by strconv.ParseInt) and must
  fit an int64; the final newline of the format matches blanks followed by a newline or
  the end of the input. Anything after that is left unread. On success the count of
  scanned items is 2; every failure is an error value.
\<close>

definition isSpace :: "nat \<Rightarrow> bool" where
  "isSpace r \<longleftrightarrow>
     (0x09 \<le> r \<and> r \<le> 0x0D) \<or> r = 0x20 \<or> r = 0x85 \<or> r = 0xA0 \<or> r = 0x1680
     \<or> (0x2000 \<le> r \<and> r \<le> 0x200A) \<or> r = 0x2028 \<or> r = 0x2029 \<or> r = 0x202F
     \<or> r = 0x205F \<or> r = 0x3000"

fun SkipSpace :: "nat list \<Rightarrow> error + nat list" where
  "SkipSpace [] = Inr []"
| "SkipSpace (r # rs) =
     (if r = 0x0D \<and> take 1 rs = [0x0A] then SkipSpace rs
      else if r = 0x0A then Inl ScanError
      else if \<not> isSpace r then Inr (r # rs)
      else SkipSpace rs)"

definition dropBlanks :: "nat list \<Rightarrow> nat list" where
  "dropBlanks rs = dropWhile (\<lambda>r. isSpace r \<and> r \<noteq> 0x0A) rs"

definition isDigit :: "nat \<Rightarrow> bool" where
  "isDigit r \<longleftrightarrow> 0x30 \<le> r \<and> r \<le> 0x39"

definition decimal :: "nat list \<Rightarrow> int" where
  "decimal ds = foldl (\<lambda>acc d. 10 * acc + (int d - 0x30)) 0 ds"

definition scanInt :: "nat list \<Rightarrow> error + (int \<times> nat list)" where
  "scanInt rs =
     (case SkipSpace rs of
        Inl e \<Rightarrow> Inl e
      | Inr rs1 \<Rightarrow>
          if rs1 = [] then Inl ScanError
          else
            (let neg = (hd rs1 = 0x2D);
                 rs2 = (if hd rs1 = 0x2B \<or> hd rs1 = 0x2D then tl rs1 else rs1);
                 tok = takeWhile (\<lambda>r. isDigit r \<or> r = 0x5F) rs2;
                 rest = dropWhile (\<lambda>r. isDigit r \<or> r = 0x5F) rs2;
                 v = (if neg then - decimal tok else decimal tok)
             in if tok = [] \<or> 0x5F \<in> set tok then Inl ScanError
                else if v < - (2 ^ 63) \<or> 2 ^ 63 \<le> v then Inl ScanError
                else Inr (v, rest)))"

definition sscanfVersion :: "byte list \<Rightarrow> error + (nat \<times> int \<times> int)" where
  "sscanfVersion str =
     (let rs = runes str in
      if take 3 rs \<noteq> [0x52, 0x46, 0x42] then Inl ScanError
      else
        (let rs1 = drop 3 rs in
         if rs1 \<noteq> [] \<and> (\<not> isSpace (hd rs1) \<or> hd rs1 = 0x0A) then Inl ScanError
         else
           (case scanInt (dropBlanks rs1) of
              Inl e \<Rightarrow> Inl e
            | Inr (major, rs2) \<Rightarrow>
                if take 1 rs2 \<noteq> [0x2E] then Inl ScanError
                else
                  (case scanInt (drop 1 rs2) of
                     Inl e \<Rightarrow> Inl e
                   | Inr (minor, rs3) \<Rightarrow>
                       (let rs4 = dropBlanks rs3 in
                        if rs4 \<noteq> [] \<and> hd rs4 \<noteq> 0x0A then Inl ScanError
                        else Inr (2, major, minor))))))"

definition hsProtocolVersion :: "ClientConn \<Rightarrow> (fault + unit) \<times> ClientConn" where
  "hsProtocolVersion conn =
     (case onReader (ReadFull 12) conn of
        (Inl e, conn1) \<Rightarrow> (Inl e, conn1)
      | (Inr pvBuf, conn1) \<Rightarrow>
          (case sscanfVersion pvBuf of
             Inl e \<Rightarrow> (Inl (Err e), conn1)
           | Inr (n, major, minor) \<Rightarrow>
               if n \<noteq> 2 then (Inl (Err InvalidVersionFormat), conn1)
               else if major \<noteq> 3 \<or> minor < 3 then (Inl (Err UnsupportedVersion), conn1)
               else
                 (let conn2 = conn1\<lparr>protocolVersion :=
                        (if minor < 7 then ProtocolVersion3_3
                         else if minor = 7 then ProtocolVersion3_7
                         else ProtocolVersion3_8)\<rparr>
                  in connWrite (protocolVersion conn2) conn2)))"

text \<open>The version token that the if-chain of \<open>hsProtocolVersion\<close> selects for a minor number.\<close>

definition negotiated :: "int \<Rightarrow> byte list" where
  "negotiated minor =
     (if minor < 7 then ProtocolVersion3_3
      else if minor = 7 then ProtocolVersion3_7
      else ProtocolVersion3_8)"

section \<open>VNC authentication (client_auth.go)\<close>

text \<open>
  \<open>des.NewCipher\<close> and \<open>cipher.Encrypt\<close> belong to the Go standard library, which
  loads the key and each block as big-endian 64-bit integers and stores the encrypted
  block the same way. The DES block function on these integers is the parameter
  \<open>des\<close> (key first). \<open>NewCipher\<close> rejects a key whose length is not 8; \<open>Encrypt\<close>
  panics on a source shorter than one block and encrypts its first 8 bytes.
\<close>

type_synonym u64 = "64 word"

definition be64 :: "byte list \<Rightarrow> u64" where
  "be64 bs = foldl (\<lambda>acc b. push_bit 8 acc OR ucast b) 0 (take 8 bs)"

definition put_be64 :: "u64 \<Rightarrow> byte list" where
  "put_be64 v = map (\<lambda>i. ucast (drop_bit (8 * (7 - i)) v)) [0..<8]"

definition swapBits :: "byte \<Rightarrow> byte" where
  "swapBits k0 =
     (let k1 = push_bit 1 (k0 AND 0x55) OR drop_bit 1 (k0 AND 0xAA);
          k2 = push_bit 2 (k1 AND 0x33) OR drop_bit 2 (k1 AND 0xCC);
          k3 = push_bit 4 (k2 AND 0x0F) OR drop_bit 4 (k2 AND 0xF0)
      in k3)"

text \<open>\<open>copy(dst, src)\<close> overwrites the first \<open>min (len dst) (len src)\<close> elements.\<close>

definition copyInto :: "'a list \<Rightarrow> 'a list \<Rightarrow> 'a list" where
  "copyInto dst src = (let n = min (length dst) (length src) in take n src @ drop n dst)"

definition desEncrypt :: "(u64 \<Rightarrow> u64 \<Rightarrow> u64) \<Rightarrow> byte list \<Rightarrow> byte list \<Rightarrow> fault + byte list" where
  "desEncrypt des key src =
     (if length src < 8 then Inl (Panic ShortBlock)
      else Inr (put_be64 (des (be64 key) (be64 src))))"

definition encrypt :: "(u64 \<Rightarrow> u64 \<Rightarrow> u64) \<Rightarrow> byte list \<Rightarrow> byte list \<Rightarrow> fault + byte list" where
  "encrypt des pw bytes =
     (let key = map swapBits (copyInto (replicate 8 0) pw) in
      if length key \<noteq> 8 then Inl (Err InvalidKey)
      else
        (case desEncrypt des key bytes of
           Inl e \<Rightarrow> Inl e
         | Inr result1 \<Rightarrow>
             if length bytes < 8 then Inl (Panic SliceBounds)
             else
               (case desEncrypt des key (drop 8 bytes) of
                  Inl e \<Rightarrow> Inl e
                | Inr result2 \<Rightarrow> Inr (result1 @ result2))))"

definition VNCAuth_Handshake ::
  "(u64 \<Rightarrow> u64 \<Rightarrow> u64) \<Rightarrow> byte list \<Rightarrow> ClientConn \<Rightarrow> (fault + unit) \<times> ClientConn"
where
  "VNCAuth_Handshake des Password conn =
     (case onReader (ReadFull 16) conn of
        (Inl e, conn1) \<Rightarrow> (Inl e, conn1)
      | (Inr challenge, conn1) \<Rightarrow>
          (case encrypt des Password challenge of
             Inl e \<Rightarrow> (Inl e, conn1)
           | Inr crypted \<Rightarrow> connWrite crypted conn1))"

text \<open>
  The response as the specification words it, for comparison: the password truncated or
  padded with zeros to 8 bytes, the bit order of each key byte reversed, and the two
  halves of the challenge encrypted independently with that key.
\<close>

definition paddedKey :: "byte list \<Rightarrow> byte list" where
  "paddedKey pw = take 8 (pw @ replicate 8 0)"

definition reverseBits :: "byte \<Rightarrow> byte" where
  "reverseBits b = word_reverse b"

definition ecbResponse :: "(u64 \<Rightarrow> u64 \<Rightarrow> u64) \<Rightarrow> byte list \<Rightarrow> byte list \<Rightarrow> byte list" where
  "ecbResponse des pw challenge =
     (let key = be64 (map reverseBits (paddedKey pw))
      in put_be64 (des key (be64 (take 8 challenge)))
         @ put_be64 (des key (be64 (take 8 (drop 8 challenge)))))"

section \<open>Cursor pseudo-encoding (encoding.go)\<close>

definition store :: "nat \<Rightarrow> byte \<Rightarrow> byte list \<Rightarrow> fault + byte list" where
  "store i v buf = (if i < length buf then Inr (buf[i := v]) else Inl (Panic IndexRange))"

definition bind_f :: "fault + 'a \<Rightarrow> ('a \<Rightarrow> fault + 'b) \<Rightarrow> fault + 'b" where
  "bind_f m f = (case m of Inl e \<Rightarrow> Inl e | Inr a \<Rightarrow> f a)"

text \<open>
  The four stores of the innermost block; \<open>pIdx\<close> is a uint16, so \<open>pIdx+1\<close> wraps.
\<close>

definition zeroPixel :: "u16 \<Rightarrow> byte list \<Rightarrow> fault + byte list" where
  "zeroPixel pIdx buf =
     bind_f (store (unat pIdx) 0 buf) (\<lambda>b1.
     bind_f (store (unat (pIdx + 1)) 0 b1) (\<lambda>b2.
     bind_f (store (unat (pIdx + 2)) 0 b2) (\<lambda>b3.
     store (unat (pIdx + 3)) 0 b3)))"

text \<open>
  The loop \<open>for idx, k := j/8, 7; k >= 0; k--\<close>: the counter of the recursion is
  \<open>k + 1\<close>. Both \<open>idx\<close> and \<open>pIdx\<close> are computed from \<open>i\<close> and \<open>j\<close> only.
\<close>

fun cursorBits :: "byte list \<Rightarrow> nat \<Rightarrow> u16 \<Rightarrow> nat \<Rightarrow> byte list \<Rightarrow> fault + byte list" where
  "cursorBits msk idx pIdx 0 buf = Inr buf"
| "cursorBits msk idx pIdx (Suc k) buf =
     (if length msk \<le> idx then Inl (Panic IndexRange)
      else if (msk ! idx) AND push_bit k 1 = 0 then
        (case zeroPixel pIdx buf of
           Inl e \<Rightarrow> Inl e
         | Inr buf' \<Rightarrow> cursorBits msk idx pIdx k buf')
      else cursorBits msk idx pIdx k buf)"

text \<open>
  The loop \<open>for j := uint16(0); j < rect.Width; j += 8\<close>: \<open>j\<close> starts at 0, so when
  \<open>j + 8\<close> exceeds 65535 the counter wraps from 65528 to 0, which is below the width,
  and the row starts again; the body only stores zeros at positions that depend on \<open>i\<close>
  and \<open>j\<close>, so a pass that did not panic is repeated for ever.
\<close>

function cursorCols :: "byte list \<Rightarrow> u16 \<Rightarrow> u16 \<Rightarrow> u16 \<Rightarrow> u16 \<Rightarrow> byte list \<Rightarrow> fault + byte list" where
  "cursorCols msk width rectStride i j buf =
     (if j < width then
        (case cursorBits msk (unat (j div 8)) (j * 4 + i * rectStride) 8 buf of
           Inl e \<Rightarrow> Inl e
         | Inr buf' \<Rightarrow>
             if 65536 \<le> unat j + 8 then Inl Diverge
             else cursorCols msk width rectStride i (j + 8) buf')
      else Inr buf)"
  by pat_completeness auto
termination
  apply (relation "measure (\<lambda>(msk, width, rectStride, i, j, buf). 65536 - unat j)")
   apply simp
  apply (simp add: unat_word_ariths)
  done

declare cursorCols.simps [simp del]

lemma u16_succ_measure: "(i::u16) < h \<Longrightarrow> unat h - unat (i + 1) < unat h - unat i"
proof -
  assume lt: "i < h"
  then have a: "unat i < unat h" by (simp add: word_less_nat_alt)
  have b: "unat h < 65536" using unsigned_less [of h, where ?'a = nat] by simp
  from a b have "unat (i + 1) = unat i + 1" by (simp add: unat_word_ariths)
  with a show ?thesis by simp
qed

function cursorRows :: "byte list \<Rightarrow> u16 \<Rightarrow> u16 \<Rightarrow> u16 \<Rightarrow> u16 \<Rightarrow> byte list \<Rightarrow> fault + byte list" where
  "cursorRows msk width height rectStride i buf =
     (if i < height then
        (case cursorCols msk width rectStride i 0 buf of
           Inl e \<Rightarrow> Inl e
         | Inr buf' \<Rightarrow> cursorRows msk width height rectStride (i + 1) buf')
      else Inr buf)"
  by pat_completeness auto
termination
  apply (relation "measure (\<lambda>(msk, width, height, rectStride, i, buf). unat height - unat i)")
   apply simp
  apply (simp add: u16_succ_measure)
  done

declare cursorRows.simps [simp del]

text \<open>
  \<open>CursorPseudoEncoding.Read\<close>: the pixels, then the mask of
  \<open>(rect.Width+7)/8*rect.Height\<close> bytes (uint16 arithmetic), then the masking loops
  over the buffer that \<open>ReadPixels\<close> returned.
\<close>

definition CursorPseudoEncoding_Read :: "Rectangle \<Rightarrow> ClientConn \<Rightarrow> (fault + Encoding) \<times> ClientConn" where
  "CursorPseudoEncoding_Read rect conn =
     (case pixelFormat conn of
        None \<Rightarrow> (Inl (Panic NilDeref), conn)
      | Some pf \<Rightarrow>
          onReader
            (bind_io (ReadPixels pf (int (unat (Height rect)) * int (unat (Width rect)))) (\<lambda>rgbaBuffer.
             bind_io (ReadFull (unat ((Width rect + 7) div 8 * Height rect))) (\<lambda>msk s.
               (case cursorRows msk (Width rect) (Height rect) (4 * Width rect) 0 rgbaBuffer of
                  Inl e \<Rightarrow> (Inl e, s)
                | Inr buf \<Rightarrow> (Inr (CursorPseudoEncoding buf), s)))))
            conn)"

section \<open>Hextile encoding (encoding.go)\<close>

text \<open>
  The decoder draws into an RGBA image of the rectangle's size with \<open>draw.Draw\<close> of
  the Go standard library. The image is a function from the coordinates of a pixel to
  its four channels. A rectangle \<open>(x0, y0, x1, y1)\<close> is \<open>image.Rect(x0, y0, x1, y1)\<close>
  and contains the pixels with \<open>x0 \<le> x < x1\<close> and \<open>y0 \<le> y < y1\<close>. Drawing with
  \<open>draw.Src\<close> stores the source's pixel at every pixel of the destination rectangle
  that lies inside the image.

  The state of the decoder holds the stream, the image and the background and foreground
  colors that persist across tiles. Two further fields record the run and are never read
  by the decoder: \<open>hx_tiles\<close> lists the tile rectangles in the order the loops reach
  them, \<open>hx_drawn\<close> lists the destination rectangle of every \<open>draw.Draw\<close> call.
\<close>

type_synonym rgba = "byte \<times> byte \<times> byte \<times> byte"
type_synonym rect = "nat \<times> nat \<times> nat \<times> nat"

record hx_state =
  hx_in :: "byte list"
  hx_img :: "nat \<times> nat \<Rightarrow> rgba"
  hx_bg :: rgba
  hx_fg :: rgba
  hx_tiles :: "rect list"
  hx_drawn :: "rect list"

fun inRect :: "rect \<Rightarrow> nat \<times> nat \<Rightarrow> bool" where
  "inRect (x0, y0, x1, y1) (x, y) \<longleftrightarrow> x0 \<le> x \<and> x < x1 \<and> y0 \<le> y \<and> y < y1"

text \<open>The fourth channel of a pixel, \<open>color.RGBA.A\<close>.\<close>

fun alpha :: "rgba \<Rightarrow> byte" where
  "alpha (r, g, b, a) = a"

definition drawSrc :: "nat \<Rightarrow> nat \<Rightarrow> rect \<Rightarrow> (nat \<times> nat \<Rightarrow> rgba) \<Rightarrow> hx_state \<Rightarrow> hx_state" where
  "drawSrc width height r src st =
     st\<lparr>hx_img := (\<lambda>p. if inRect r p \<and> fst p < width \<and> snd p < height then src p else hx_img st p),
        hx_drawn := hx_drawn st @ [r]\<rparr>"

text \<open>
  \<open>newRGBAImage(rgbaBuffer, tw, th)\<close> drawn at the tile's origin: the pixel \<open>(x, y)\<close>
  of the image comes from offset \<open>(y - ty) * 4 * tw + (x - tx) * 4\<close> of the buffer.
\<close>

definition rawSrc :: "byte list \<Rightarrow> nat \<Rightarrow> nat \<Rightarrow> nat \<Rightarrow> nat \<times> nat \<Rightarrow> rgba" where
  "rawSrc buf tx ty tw p =
     (let off = (snd p - ty) * (4 * tw) + (fst p - tx) * 4
      in (buf ! off, buf ! (off + 1), buf ! (off + 2), buf ! (off + 3)))"

definition onStream ::
  "(byte list \<Rightarrow> (fault + 'a) \<times> byte list) \<Rightarrow> hx_state \<Rightarrow> (fault + 'a) \<times> hx_state"
where
  "onStream m st = (case m (hx_in st) of (res, s') \<Rightarrow> (res, st\<lparr>hx_in := s'\<rparr>))"

definition readPixelToUniform :: "PixelFormat \<Rightarrow> byte list \<Rightarrow> (fault + rgba) \<times> byte list" where
  "readPixelToUniform pf =
     bind_io (ReadPixels pf 1) (\<lambda>buffer s. (Inr (buffer ! 0, buffer ! 1, buffer ! 2, buffer ! 3), s))"

text \<open>
  The subrectangle loop \<open>for i := uint8(0); i < numSubRect; i++\<close>; the argument of the
  recursion is the number of subrectangles still to read.
\<close>

fun hextileSubrects ::
  "PixelFormat \<Rightarrow> nat \<Rightarrow> nat \<Rightarrow> nat \<Rightarrow> nat \<Rightarrow> bool \<Rightarrow> nat \<Rightarrow> hx_state \<Rightarrow> (fault + unit) \<times> hx_state"
where
  "hextileSubrects pf width height tx ty subrectColored 0 st = (Inr (), st)"
| "hextileSubrects pf width height tx ty subrectColored (Suc n) st =
     (case (if subrectColored then onStream (readPixelToUniform pf) st else (Inr (hx_fg st), st)) of
        (Inl e, st1) \<Rightarrow> (Inl e, st1)
      | (Inr uImg, st1) \<Rightarrow>
          (case onStream (ReadFull 2) st1 of
             (Inl e, st2) \<Rightarrow> (Inl e, st2)
           | (Inr subrectBox, st2) \<Rightarrow>
               (let sy = ty + unat (subrectBox ! 0 AND 0xF);
                    sx = tx + unat (drop_bit 4 (subrectBox ! 0));
                    sh = unat (subrectBox ! 1 AND 0xF) + 1;
                    sw = unat (drop_bit 4 (subrectBox ! 1)) + 1
                in hextileSubrects pf width height tx ty subrectColored n
                     (drawSrc width height (sx, sy, sx + sw, sy + sh) (\<lambda>p. uImg) st2))))"

definition readColor ::
  "bool \<Rightarrow> PixelFormat \<Rightarrow> (rgba \<Rightarrow> hx_state \<Rightarrow> hx_state) \<Rightarrow> hx_state \<Rightarrow> (fault + unit) \<times> hx_state"
where
  "readColor specified pf assign st =
     (if specified then
        (case onStream (readPixelToUniform pf) st of
           (Inl e, st') \<Rightarrow> (Inl e, st')
         | (Inr col, st') \<Rightarrow> (Inr (), assign col st'))
      else (Inr (), st))"

text \<open>The body of the inner loop: one tile at \<open>(tx, ty)\<close> of size \<open>tw\<close> by \<open>th\<close>.\<close>

definition hextileTile ::
  "PixelFormat \<Rightarrow> nat \<Rightarrow> nat \<Rightarrow> nat \<Rightarrow> nat \<Rightarrow> nat \<Rightarrow> nat \<Rightarrow> hx_state \<Rightarrow> (fault + unit) \<times> hx_state"
where
  "hextileTile pf width height tx ty tw th st =
     (case onStream read_u8 st of
        (Inl e, st1) \<Rightarrow> (Inl e, st1)
      | (Inr subencoding, st1) \<Rightarrow>
          (let dstRect = (tx, ty, tx + tw, ty + th);
               st2 = st1\<lparr>hx_tiles := hx_tiles st1 @ [dstRect]\<rparr>
           in if subencoding AND 1 \<noteq> 0 then
                (case onStream (ReadPixels pf (int (tw * th))) st2 of
                   (Inl e, st3) \<Rightarrow> (Inl e, st3)
                 | (Inr rgbaBuffer, st3) \<Rightarrow>
                     (Inr (), drawSrc width height dstRect (rawSrc rgbaBuffer tx ty tw) st3))
              else
                (case readColor (subencoding AND 2 \<noteq> 0) pf (\<lambda>col s. s\<lparr>hx_bg := col\<rparr>) st2 of
                   (Inl e, st3) \<Rightarrow> (Inl e, st3)
                 | (Inr _, st3) \<Rightarrow>
                     (case readColor (subencoding AND 4 \<noteq> 0) pf (\<lambda>col s. s\<lparr>hx_fg := col\<rparr>) st3 of
                        (Inl e, st4) \<Rightarrow> (Inl e, st4)
                      | (Inr _, st4) \<Rightarrow>
                          (let st5 = drawSrc width height dstRect (\<lambda>p. hx_bg st4) st4 in
                           if subencoding AND 8 = 0 then (Inr (), st5)
                           else
                             (let subrectColored = (subencoding AND 16 \<noteq> 0) in
                              case onStream read_u8 st5 of
                                (Inl e, st6) \<Rightarrow> (Inl e, st6)
                              | (Inr numSubRect, st6) \<Rightarrow>
                                  hextileSubrects pf width height tx ty subrectColored
                                    (unat numSubRect) st6))))))"

text \<open>
  The loop \<open>for tx := 0; tx < width; tx += 16\<close>; \<open>tw\<close> is 16 when the loop starts and
  becomes \<open>twLast = width % 16\<close> when \<open>tx\<close> reaches \<open>txLast = width - twLast\<close>.
\<close>

function hextileCols ::
  "PixelFormat \<Rightarrow> nat \<Rightarrow> nat \<Rightarrow> nat \<Rightarrow> nat \<Rightarrow> nat \<Rightarrow> nat \<Rightarrow> hx_state \<Rightarrow> (fault + unit) \<times> hx_state"
where
  "hextileCols pf width height ty th tx tw st =
     (if tx < width then
        (let tw' = (if tx = width - width mod 16 then width mod 16 else tw) in
         case hextileTile pf width height tx ty tw' th st of
           (Inl e, st') \<Rightarrow> (Inl e, st')
         | (Inr _, st') \<Rightarrow> hextileCols pf width height ty th (tx + 16) tw' st')
      else (Inr (), st))"
  by pat_completeness auto
termination
  by (relation "measure (\<lambda>(pf, width, height, ty, th, tx, tw, st). width - tx)") auto

declare hextileCols.simps [simp del]

text \<open>
  The loop \<open>for ty := 0; ty < height; ty += 16\<close>; \<open>th\<close> becomes \<open>thLast\<close> when
  \<open>ty\<close> reaches \<open>tyLast\<close>, and \<open>tw\<close> is set back to 16 before every row.
\<close>

function hextileRows ::
  "PixelFormat \<Rightarrow> nat \<Rightarrow> nat \<Rightarrow> nat \<Rightarrow> nat \<Rightarrow> hx_state \<Rightarrow> (fault + unit) \<times> hx_state"
where
  "hextileRows pf width height ty th st =
     (if ty < height then
        (let th' = (if ty = height - height mod 16 then height mod 16 else th) in
         case hextileCols pf width height ty th' 0 16 st of
           (Inl e, st') \<Rightarrow> (Inl e, st')
         | (Inr _, st') \<Rightarrow> hextileRows pf width height (ty + 16) th' st')
      else (Inr (), st))"
  by pat_completeness auto
termination
  by (relation "measure (\<lambda>(pf, width, height, ty, th, st). height - ty)") auto

declare hextileRows.simps [simp del]

text \<open>
  The decoder up to the PNG serialisation: a fresh image (all channels 0), background
  and foreground \<open>color.Black\<close>, then the two loops from \<open>ty = 0\<close> with \<open>th = 16\<close>.
\<close>

definition hextileInit :: "byte list \<Rightarrow> hx_state" where
  "hextileInit s =
     \<lparr>hx_in = s, hx_img = (\<lambda>p. (0, 0, 0, 0)), hx_bg = (0, 0, 0, 255), hx_fg = (0, 0, 0, 255),
      hx_tiles = [], hx_drawn = []\<rparr>"

definition hextileDecode :: "PixelFormat \<Rightarrow> nat \<Rightarrow> nat \<Rightarrow> byte list \<Rightarrow> (fault + unit) \<times> hx_state" where
  "hextileDecode pf width height s = hextileRows pf width height 0 16 (hextileInit s)"

text \<open>
  The invariant of the decoder that the proofs below carry through the loops: the
  background and the foreground are opaque, and so is every pixel of the image that lies
  in the destination rectangle of a draw call made so far.
\<close>

definition painted :: "nat \<Rightarrow> nat \<Rightarrow> hx_state \<Rightarrow> bool" where
  "painted width height st \<longleftrightarrow>
     alpha (hx_bg st) = 255 \<and> alpha (hx_fg st) = 255
   \<and> (\<forall>r\<in>set (hx_drawn st). \<forall>p. inRect r p \<and> fst p < width \<and> snd p < height
          \<longrightarrow> alpha (hx_img st p) = 255)"

text \<open>
  \<open>HextileEncoding.Read\<close>: \<open>pngEncode\<close> is the standard library's serialiser and a
  parameter here; its result is the payload of the returned encoding.
\<close>

definition HextileEncoding_Read ::
  "(nat \<Rightarrow> nat \<Rightarrow> (nat \<times> nat \<Rightarrow> rgba) \<Rightarrow> error + byte list) \<Rightarrow> Rectangle \<Rightarrow> ClientConn
   \<Rightarrow> (fault + Encoding) \<times> ClientConn"
where
  "HextileEncoding_Read pngEncode rect conn =
     (let width = unat (Width rect); height = unat (Height rect) in
      case pixelFormat conn of
        None \<Rightarrow> (Inl (Panic NilDeref), conn)
      | Some pf \<Rightarrow>
          (case hextileDecode pf width height (incoming (c conn)) of
             (res, st) \<Rightarrow>
               (let conn' = conn\<lparr>c := (c conn)\<lparr>incoming := hx_in st\<rparr>\<rparr> in
                case res of
                  Inl e \<Rightarrow> (Inl e, conn')
                | Inr _ \<Rightarrow>
                    (case pngEncode width height (hx_img st) of
                       Inl e \<Rightarrow> (Inl (Err e), conn')
                     | Inr png \<Rightarrow> (Inr (HextileEncoding png), conn')))))"

text \<open>
  The tiling the specification describes, for comparison with the decoder's: the tiles
  of a \<open>width\<close> by \<open>height\<close> rectangle in raster order, each 16 wide and high except
  that the last column is \<open>width mod 16\<close> wide and the last row \<open>height mod 16\<close> high
  when these are not 0.
\<close>

definition tileCount :: "nat \<Rightarrow> nat" where
  "tileCount n = (n + 15) div 16"

definition tileSize :: "nat \<Rightarrow> nat \<Rightarrow> nat" where
  "tileSize n k = (if k + 1 = tileCount n \<and> n mod 16 \<noteq> 0 then n mod 16 else 16)"

definition specTiles :: "nat \<Rightarrow> nat \<Rightarrow> rect list" where
  "specTiles width height =
     concat (map (\<lambda>row. map (\<lambda>col. (16 * col, 16 * row,
                                      16 * col + tileSize width col, 16 * row + tileSize height row))
                             [0..<tileCount width])
                 [0..<tileCount height])"

section \<open>Operations on a connection\<close>

text \<open>
  The operations of this development that act on a connection, and the connection they
  leave behind whatever their result.
\<close>

datatype operation =
    SendSetPixelFormat SetPixelFormatMsg
  | SendSetEncodings SetEncodingsMsg
  | SendClientCutText ClientCutTextMsg
  | ReceiveSetColorMapEntries
  | HandshakeProtocolVersion
  | HandshakeVNCAuth "byte list"
  | ReadCursor Rectangle
  | ReadHextile Rectangle

fun perform ::
  "(u64 \<Rightarrow> u64 \<Rightarrow> u64) \<Rightarrow> (nat \<Rightarrow> nat \<Rightarrow> (nat \<times> nat \<Rightarrow> rgba) \<Rightarrow> error + byte list)
   \<Rightarrow> ClientConn \<Rightarrow> operation \<Rightarrow> ClientConn"
where
  "perform des png conn (SendSetPixelFormat m) = snd (SetPixelFormatMsg_Send m conn)"
| "perform des png conn (SendSetEncodings m) = snd (SetEncodingsMsg_Send m conn)"
| "perform des png conn (SendClientCutText m) = snd (ClientCutTextMsg_Send m conn)"
| "perform des png conn ReceiveSetColorMapEntries = snd (SetColorMapEntriesMsg_Receive conn)"
| "perform des png conn HandshakeProtocolVersion = snd (hsProtocolVersion conn)"
| "perform des png conn (HandshakeVNCAuth pw) = snd (VNCAuth_Handshake des pw conn)"
| "perform des png conn (ReadCursor rect) = snd (CursorPseudoEncoding_Read rect conn)"
| "perform des png conn (ReadHextile rect) = snd (HextileEncoding_Read png rect conn)"

section \<open>Example values\<close>

text \<open>Concrete connections, formats and inputs at which the theorems below are instantiated.\<close>

definition exampleNet :: "byte list \<Rightarrow> NetConn" where
  "exampleNet bs = \<lparr>incoming = bs, sent = [], writable = True\<rparr>"

definition exampleConfig :: ClientConnConfig where
  "exampleConfig = \<lparr>Address = ''localhost:5900'', Auth = None, Exclusive = False,
                     ServerMessages = Some Map.empty\<rparr>"

definition trueColor32 :: RFBPixelFormat where
  "trueColor32 = \<lparr>BPP = 32, Depth = 24, BigEndianFlag = 1, TrueColor = 1, RedMax = 255,
                   GreenMax = 255, BlueMax = 255, RedShift = 16, GreenShift = 8, BlueShift = 0\<rparr>"

definition palette8 :: RFBPixelFormat where
  "palette8 = \<lparr>BPP = 8, Depth = 8, BigEndianFlag = 0, TrueColor = 0, RedMax = 0,
                GreenMax = 0, BlueMax = 0, RedShift = 0, GreenShift = 0, BlueShift = 0\<rparr>"

definition exampleConn :: "RFBPixelFormat \<Rightarrow> byte list \<Rightarrow> ClientConn" where
  "exampleConn rpf bs =
     \<lparr>c = exampleNet bs, config = exampleConfig, protocolVersion = [], securityType = 0,
      encodingMap = [RawEncType \<mapsto> RawEncoding []], pixelFormat = Some (NewPixelFormat rpf),
      FrameBufferWidth = 0, FrameBufferHeight = 0, DesktopName = []\<rparr>"

text \<open>A stand-in block function for instantiating the statements about \<open>des\<close>.\<close>

definition xorDes :: "u64 \<Rightarrow> u64 \<Rightarrow> u64" where
  "xorDes key block = key XOR block"

definition exampleChallenge :: "byte list" where
  "exampleChallenge = [0, 1, 2, 3, 4, 5, 6, 7, 8, 9, 10, 11, 12, 13, 14, 15]"

text \<open>
  A SetColorMapEntries body: padding, first color 0, one color, red 65535, green 0,
  blue 0.
\<close>

definition exampleColorMsg :: "byte list" where
  "exampleColorMsg = [0, 0, 0, 0, 1, 0xFF, 0xFF, 0, 0, 0, 0]"

text \<open>
  The zero-valued configuration (empty address, nil slice, nil map), and a dial that
  fails on an empty address, as \<open>net.Dial\<close> does, and connects otherwise.
\<close>

definition nilMessagesConfig :: ClientConnConfig where
  "nilMessagesConfig = \<lparr>Address = [], Auth = None, Exclusive = False, ServerMessages = None\<rparr>"

definition exampleDial :: "string \<Rightarrow> error + NetConn" where
  "exampleDial address = (if address = [] then Inl TransportError else Inr (exampleNet []))"

definition exampleSetEncodings :: SetEncodingsMsg where
  "exampleSetEncodings = \<lparr>se_ID = SetEncodingsMID, Encodings = [HextileEncoding [], CursorPseudoEncoding []]\<rparr>"

text \<open>
  Three texts: one whose second character is U+0100 (UTF-8 bytes C4 80); the single
  character U+00E9 (UTF-8 bytes C3 A9; its Latin-1 byte would be E9); and 4294967288
  times the letter A.
\<close>

definition exampleBadCutText :: ClientCutTextMsg where
  "exampleBadCutText = \<lparr>cct_ID = ClientCutTextMID, Text = [0x41, 0xC4, 0x80]\<rparr>"

definition exampleLatin1CutText :: ClientCutTextMsg where
  "exampleLatin1CutText = \<lparr>cct_ID = ClientCutTextMID, Text = [0xC3, 0xA9]\<rparr>"

definition exampleHugeCutText :: ClientCutTextMsg where
  "exampleHugeCutText = \<lparr>cct_ID = ClientCutTextMID, Text = replicate 4294967288 0x41\<rparr>"

text \<open>
  A cursor of two pixels in one row: the pixels 00 01 02 03 and 00 04 05 06, then the mask
  byte 0x80, whose first bit (pixel 0) is 1 and whose second bit (pixel 1) is 0.
\<close>

definition exampleCursorRect :: Rectangle where
  "exampleCursorRect = \<lparr>X = 0, Y = 0, Width = 2, Height = 1\<rparr>"

definition exampleCursorData :: "byte list" where
  "exampleCursorData = [0, 1, 2, 3, 0, 4, 5, 6, 0x80]"

text \<open>
  A Hextile rectangle 17 wide and 1 high: the first tile has the subencoding 2
  (background specified) and the background pixel 00 09 09 09; the second tile is raw
  (subencoding 1) with the one pixel 00 01 02 03.
\<close>

definition exampleHextile :: "byte list" where
  "exampleHextile = [2, 0, 9, 9, 9, 1, 0, 1, 2, 3]"

section \<open>Properties\<close>

subsection \<open>Reading and writing on a connection\<close>

lemma onReader_ReadFull:
  "incoming (c conn) = bs @ rest \<Longrightarrow> length bs = n \<Longrightarrow>
   onReader (ReadFull n) conn = (Inr bs, conn\<lparr>c := (c conn)\<lparr>incoming := rest\<rparr>\<rparr>)"
  by (simp add: onReader_def ReadFull_def)

lemma onReader_pixelFormat: "pixelFormat (snd (onReader m conn)) = pixelFormat conn"
  by (simp add: onReader_def split: prod.splits)

lemma onReader_encodingMap: "encodingMap (snd (onReader m conn)) = encodingMap conn"
  by (simp add: onReader_def split: prod.splits)

lemma connWrite_encodingMap: "encodingMap (snd (connWrite bs conn)) = encodingMap conn"
  by (simp add: connWrite_def)

lemma onReader_encodingMap': "onReader m conn = (res, conn') \<Longrightarrow> encodingMap conn' = encodingMap conn"
  using onReader_encodingMap [of m conn] by simp

lemma connWrite_encodingMap': "connWrite bs conn = (res, conn') \<Longrightarrow> encodingMap conn' = encodingMap conn"
  using connWrite_encodingMap [of bs conn] by simp

subsection \<open>The buffer of converted pixels\<close>

lemma readPixelsLoop_buffer:
  "readPixelsLoop pf n s = (Inr buf, s') \<Longrightarrow>
   length buf = 4 * n \<and> (\<forall>i<n. buf ! (4 * i + 3) = 255) \<and> s' = drop (n * unat (ByPP pf)) s"
proof (induction n arbitrary: s buf)
  case 0
  then show ?case by simp
next
  case (Suc n)
  from Suc.prems obtain pixelBuffer s1 r g b rest where
    rd: "ReadFull (unat (ByPP pf)) s = (Inr pixelBuffer, s1)" and
    px: "pixelToRGB pf pixelBuffer = Inr (r, g, b)" and
    rc: "readPixelsLoop pf n s1 = (Inr rest, s')" and
    bf: "buf = [r, g, b, 255] @ rest"
    by (auto split: prod.splits sum.splits)
  from rd have s1: "s1 = drop (unat (ByPP pf)) s"
    by (auto simp: ReadFull_def split: if_splits)
  from Suc.IH [OF rc] have
    l: "length rest = 4 * n" and a: "\<forall>i<n. rest ! (4 * i + 3) = 255" and
    d: "s' = drop (n * unat (ByPP pf)) s1" by simp_all
  have "\<forall>i<Suc n. buf ! (4 * i + 3) = 255"
  proof (intro allI impI)
    fix i assume "i < Suc n"
    show "buf ! (4 * i + 3) = 255"
    proof (cases i)
      case 0
      then show ?thesis by (simp add: bf)
    next
      case (Suc j)
      with \<open>i < Suc n\<close> have "j < n" by simp
      with a have "rest ! (4 * j + 3) = 255" by simp
      moreover have "buf ! (4 * i + 3) = rest ! (4 * j + 3)"
        unfolding bf Suc by (simp add: nth_append add.commute)
      ultimately show ?thesis by simp
    qed
  qed
  moreover have "length buf = 4 * Suc n" using l bf by simp
  moreover have "s' = drop (Suc n * unat (ByPP pf)) s"
    using d s1 by (simp add: add.commute)
  ultimately show ?case by simp
qed

subsection \<open>SetColorMapEntries and the connection's color map\<close>

lemma Receive_keeps_pixelFormat:
  "pixelFormat (snd (SetColorMapEntriesMsg_Receive conn)) = pixelFormat conn"
  by (simp add: SetColorMapEntriesMsg_Receive_def onReader_pixelFormat)

text \<open>
  Claim C1 says that a successful receive of SetColorMapEntries with first color \<open>f\<close>
  and \<open>n\<close> colors leaves entry \<open>f + i\<close> of the connection's color map equal to the
  \<open>i\<close>-th received color. The type's comment promises the same (the message "will
  automatically update the color map for the associated connection"), but \<open>Receive\<close>
  never calls \<open>UpdateColorMap\<close>: on a palette connection that receives first color 0
  and the single color (65535, 0, 0), the message is returned and the color map still
  holds its 256 zero entries.
\<close>

theorem SetColorMapEntries_Receive_leaves_color_map:
  "fst (SetColorMapEntriesMsg_Receive (exampleConn palette8 exampleColorMsg))
     = Inr (SetColorMapEntriesMsg 0 [\<lparr>R = 65535, G = 0, B = 0\<rparr>])
   \<and> map_option ColorMap
         (pixelFormat (snd (SetColorMapEntriesMsg_Receive (exampleConn palette8 exampleColorMsg))))
     = Some (replicate 256 zeroColor)"
  apply (rule conjI)
   apply (simp add: SetColorMapEntriesMsg_Receive_def onReader_def bind_io_def ReadFull_def
      read_u16_def read_Colors_def exampleConn_def exampleNet_def exampleColorMsg_def be16_def)
  apply (simp add: Receive_keeps_pixelFormat)
  apply (simp add: exampleConn_def NewPixelFormat_def palette8_def)
  done

subsection \<open>The cursor mask\<close>

lemma cursor_pixels:
  "ReadPixels (NewPixelFormat trueColor32) 2 [0, 1, 2, 3, 0, 4, 5, 6, 0x80]
   = (Inr [1, 2, 3, 255, 4, 5, 6, 255], [0x80])"
  by code_simp

lemma cursor_zero: "zeroPixel 0 [1, 2, 3, 255, 4, 5, 6, 255] = Inr [0, 0, 0, 0, 4, 5, 6, 255]"
  by (simp add: zeroPixel_def store_def bind_f_def)

lemma cursor_zero': "zeroPixel 0 [0, 0, 0, 0, 4, 5, 6, 255] = Inr [0, 0, 0, 0, 4, 5, 6, 255]"
  by (simp add: zeroPixel_def store_def bind_f_def)

lemma cursor_bits:
  "cursorBits [0x80] 0 0 8 [1, 2, 3, 255, 4, 5, 6, 255] = Inr [0, 0, 0, 0, 4, 5, 6, 255]"
  by (simp add: eval_nat_numeral cursor_zero cursor_zero')

lemma cursor_cols:
  "cursorCols [0x80] 2 8 0 0 [1, 2, 3, 255, 4, 5, 6, 255] = Inr [0, 0, 0, 0, 4, 5, 6, 255]"
  by (simp add: cursorCols.simps cursor_bits)

lemma cursor_rows:
  "cursorRows [0x80] 2 1 8 0 [1, 2, 3, 255, 4, 5, 6, 255] = Inr [0, 0, 0, 0, 4, 5, 6, 255]"
  by (simp add: cursorRows.simps cursor_cols)

text \<open>
  Claim C2 says that after the Cursor decoder has read the pixels and the mask, the pixel
  at row \<open>i\<close>, column \<open>j\<close> is \<open>(0,0,0,0)\<close> when its mask bit (most significant bit
  first) is 0 and is the decoded pixel when the bit is 1. The source means to do this
  (its comment: "set masked pixels to black") and loops over the eight bits of each mask
  byte, but the pixel index it clears is computed from \<open>j\<close> alone and not from the bit
  \<open>k\<close>, and the mask index \<open>j/8\<close> ignores the row. So a zero bit anywhere in a mask
  byte clears the first pixel of its group of eight and no other pixel is ever cleared:
  with the mask 0x80 on a cursor of two pixels, pixel 0 (bit 1) is cleared and pixel 1
  (bit 0) keeps its color.
\<close>

theorem Cursor_mask_hits_first_pixel:
  "fst (CursorPseudoEncoding_Read exampleCursorRect (exampleConn trueColor32 exampleCursorData))
   = Inr (CursorPseudoEncoding [0, 0, 0, 0, 4, 5, 6, 255])"
  by (simp add: CursorPseudoEncoding_Read_def exampleCursorRect_def exampleConn_def exampleNet_def
      exampleCursorData_def onReader_def bind_io_def cursor_pixels ReadFull_def cursor_rows)

subsection \<open>Updating a color map\<close>

lemma UpdateColorMap_in_range:
  "unat firstColor + length colors \<le> length cm \<Longrightarrow>
   UpdateColorMap firstColor colors cm =
     (Inr (), take (unat firstColor) cm @ colors @ drop (unat firstColor + length colors) cm)"
  by (simp add: UpdateColorMap_def Let_def)

lemma UpdateColorMap_beyond:
  "length cm < unat firstColor + length colors \<Longrightarrow>
   UpdateColorMap firstColor colors cm = (Inl (Panic SliceBounds), cm)"
  by (simp add: UpdateColorMap_def Let_def)

lemma UpdateColorMap_no_error: "fst (UpdateColorMap firstColor colors cm) \<noteq> Inl (Err e)"
  by (simp add: UpdateColorMap_def Let_def)

text \<open>
  Claim C3 says that the update writes the colors when the range lies within the 256
  entries and otherwise fails with an OutOfRange error value, without crashing. The
  first half holds (\<open>UpdateColorMap_in_range\<close>). The function does try to return an
  error, by comparing the count that \<open>copy\<close> reports with \<open>n\<close>, but the slice
  expression that builds the destination is evaluated before \<open>copy\<close> and panics when
  the range ends past the map, so the error is never returned
  (\<open>UpdateColorMap_no_error\<close>): with first color 255 and two colors on a 256-entry map
  the call panics.
\<close>

theorem UpdateColorMap_past_end_panics:
  "UpdateColorMap 255 [\<lparr>R = 1, G = 2, B = 3\<rparr>, \<lparr>R = 4, G = 5, B = 6\<rparr>] (replicate 256 zeroColor)
   = (Inl (Panic SliceBounds), replicate 256 zeroColor)"
  by (simp add: UpdateColorMap_def Let_def)

subsection \<open>Protocol version negotiation\<close>

lemma sscanfVersion_count: "sscanfVersion str = Inr (n, major, minor) \<Longrightarrow> n = 2"
  by (auto simp: sscanfVersion_def Let_def split: if_splits sum.splits prod.splits)

lemma hsProtocolVersion_scanned:
  assumes tok: "incoming (c conn) = token @ rest" "length token = 12"
    and scan: "sscanfVersion token = Inr (n, major, minor)"
  shows "hsProtocolVersion conn =
     (if major \<noteq> 3 \<or> minor < 3
      then (Inl (Err UnsupportedVersion), conn\<lparr>c := (c conn)\<lparr>incoming := rest\<rparr>\<rparr>)
      else if writable (c conn)
      then (Inr (), conn\<lparr>c := (c conn)\<lparr>incoming := rest, sent := sent (c conn) @ negotiated minor\<rparr>,
                         protocolVersion := negotiated minor\<rparr>)
      else (Inl (Err TransportError),
            conn\<lparr>c := (c conn)\<lparr>incoming := rest\<rparr>, protocolVersion := negotiated minor\<rparr>))"
proof -
  have n: "n = 2" using scan by (rule sscanfVersion_count)
  have r: "onReader (ReadFull 12) conn = (Inr token, conn\<lparr>c := (c conn)\<lparr>incoming := rest\<rparr>\<rparr>)"
    using tok by (simp add: onReader_ReadFull)
  show ?thesis
    unfolding hsProtocolVersion_def r
    by (simp add: scan n Let_def connWrite_def negotiated_def)
qed

lemma r889: "runes (bytes_of ''RFB 003.889'' @ [0x0A]) = [0x52, 0x46, 0x42, 0x20, 0x30, 0x30, 0x33, 0x2E, 0x38, 0x38, 0x39, 0x0A]"
  by code_simp
lemma r003: "runes (bytes_of ''RFB 003.003'' @ [0x0A]) = [0x52, 0x46, 0x42, 0x20, 0x30, 0x30, 0x33, 0x2E, 0x30, 0x30, 0x33, 0x0A]"
  by code_simp
lemma r002: "runes (bytes_of ''RFB 003.002'' @ [0x0A]) = [0x52, 0x46, 0x42, 0x20, 0x30, 0x30, 0x33, 0x2E, 0x30, 0x30, 0x32, 0x0A]"
  by code_simp
lemma scanInt_major: "scanInt (0x30 # 0x30 # 0x33 # 0x2E # rs) = Inr (3, 0x2E # rs)"
  by (simp add: scanInt_def isSpace_def isDigit_def decimal_def Let_def)
lemma scanInt_889: "scanInt [0x38, 0x38, 0x39, 0x0A] = Inr (889, [0x0A])"
  by (simp add: scanInt_def isSpace_def isDigit_def decimal_def Let_def)
lemma scanInt_003: "scanInt [0x30, 0x30, 0x33, 0x0A] = Inr (3, [0x0A])"
  by (simp add: scanInt_def isSpace_def isDigit_def decimal_def Let_def)
lemma scanInt_002: "scanInt [0x30, 0x30, 0x32, 0x0A] = Inr (2, [0x0A])"
  by (simp add: scanInt_def isSpace_def isDigit_def decimal_def Let_def)
lemma scan_889: "sscanfVersion (bytes_of ''RFB 003.889'' @ [0x0A]) = Inr (2, 3, 889)"
  unfolding sscanfVersion_def r889
  by (simp add: Let_def isSpace_def dropBlanks_def scanInt_major scanInt_889)
lemma scan_003: "sscanfVersion (bytes_of ''RFB 003.003'' @ [0x0A]) = Inr (2, 3, 3)"
  unfolding sscanfVersion_def r003
  by (simp add: Let_def isSpace_def dropBlanks_def scanInt_major scanInt_003)
lemma scan_002: "sscanfVersion (bytes_of ''RFB 003.002'' @ [0x0A]) = Inr (2, 3, 2)"
  unfolding sscanfVersion_def r002
  by (simp add: Let_def isSpace_def dropBlanks_def scanInt_major scanInt_002)

lemma token_length: "length (bytes_of ''RFB 003.889'' @ [0x0A]) = 12"
  "length (bytes_of ''RFB 003.003'' @ [0x0A]) = 12" "length (bytes_of ''RFB 003.002'' @ [0x0A]) = 12"
  by (simp_all add: bytes_of_def)

text \<open>
  Claim C4: the version handshake reads a 12-byte token and scans it as
  \<open>RFB %d.%d\n\<close>. For a token that scans to \<open>major\<close> and \<open>minor\<close> it fails with
  UnsupportedVersion exactly when \<open>major \<noteq> 3\<close> or \<open>minor < 3\<close>, writing nothing;
  otherwise the negotiated version is 3.3 when \<open>minor < 7\<close>, 3.7 when \<open>minor = 7\<close>
  and 3.8 when \<open>minor \<ge> 8\<close>, and that token is what a transport that accepts the
  write receives. In particular \<open>RFB 003.889\<close> is answered with \<open>RFB 003.008\<close>,
  \<open>RFB 003.003\<close> with \<open>RFB 003.003\<close>, and \<open>RFB 003.002\<close> fails.
\<close>

theorem hsProtocolVersion_negotiation:
  "(incoming (c conn) = token @ rest \<and> length token = 12
      \<and> sscanfVersion token = Inr (n, major, minor) \<longrightarrow>
        (fst (hsProtocolVersion conn) = Inl (Err UnsupportedVersion) \<longleftrightarrow> major \<noteq> 3 \<or> minor < 3)
      \<and> (major \<noteq> 3 \<or> minor < 3 \<longrightarrow> sent (c (snd (hsProtocolVersion conn))) = sent (c conn))
      \<and> (major = 3 \<and> 3 \<le> minor \<longrightarrow>
            protocolVersion (snd (hsProtocolVersion conn)) =
              (if minor < 7 then ProtocolVersion3_3
               else if minor = 7 then ProtocolVersion3_7 else ProtocolVersion3_8)
          \<and> (writable (c conn) \<longrightarrow>
                fst (hsProtocolVersion conn) = Inr ()
              \<and> sent (c (snd (hsProtocolVersion conn))) =
                  sent (c conn) @ protocolVersion (snd (hsProtocolVersion conn)))))
   \<and> (incoming (c conn) = bytes_of ''RFB 003.889'' @ [0x0A] @ rest \<and> writable (c conn) \<longrightarrow>
        fst (hsProtocolVersion conn) = Inr ()
      \<and> sent (c (snd (hsProtocolVersion conn))) = sent (c conn) @ bytes_of ''RFB 003.008'' @ [0x0A])
   \<and> (incoming (c conn) = bytes_of ''RFB 003.003'' @ [0x0A] @ rest \<and> writable (c conn) \<longrightarrow>
        fst (hsProtocolVersion conn) = Inr ()
      \<and> sent (c (snd (hsProtocolVersion conn))) = sent (c conn) @ bytes_of ''RFB 003.003'' @ [0x0A])
   \<and> (incoming (c conn) = bytes_of ''RFB 003.002'' @ [0x0A] @ rest \<longrightarrow>
        fst (hsProtocolVersion conn) = Inl (Err UnsupportedVersion)
      \<and> sent (c (snd (hsProtocolVersion conn))) = sent (c conn))"
proof (intro conjI impI)
  assume a: "incoming (c conn) = token @ rest \<and> length token = 12
      \<and> sscanfVersion token = Inr (n, major, minor)"
  note h = hsProtocolVersion_scanned [of conn token rest n major minor]
  show "fst (hsProtocolVersion conn) = Inl (Err UnsupportedVersion) \<longleftrightarrow> major \<noteq> 3 \<or> minor < 3"
    using a h by auto
  { assume "major \<noteq> 3 \<or> minor < 3"
    then show "sent (c (snd (hsProtocolVersion conn))) = sent (c conn)" using a h by auto }
  { assume b: "major = 3 \<and> 3 \<le> minor"
    show "protocolVersion (snd (hsProtocolVersion conn)) =
              (if minor < 7 then ProtocolVersion3_3
               else if minor = 7 then ProtocolVersion3_7 else ProtocolVersion3_8)"
      using a b h by (auto simp: negotiated_def)
    { assume w: "writable (c conn)"
      show "fst (hsProtocolVersion conn) = Inr ()" using a b w h by auto
      show "sent (c (snd (hsProtocolVersion conn))) =
                  sent (c conn) @ protocolVersion (snd (hsProtocolVersion conn))"
        using a b w h by auto } }
next
  assume a: "incoming (c conn) = bytes_of ''RFB 003.889'' @ [0x0A] @ rest \<and> writable (c conn)"
  then have i: "incoming (c conn) = (bytes_of ''RFB 003.889'' @ [0x0A]) @ rest" by simp
  note h = hsProtocolVersion_scanned [OF i token_length(1) scan_889]
  show "fst (hsProtocolVersion conn) = Inr ()" using a h by simp
  show "sent (c (snd (hsProtocolVersion conn))) = sent (c conn) @ bytes_of ''RFB 003.008'' @ [0x0A]"
    using a h by (simp add: negotiated_def ProtocolVersion3_3_def ProtocolVersion3_8_def)
next
  assume a: "incoming (c conn) = bytes_of ''RFB 003.003'' @ [0x0A] @ rest \<and> writable (c conn)"
  then have i: "incoming (c conn) = (bytes_of ''RFB 003.003'' @ [0x0A]) @ rest" by simp
  note h = hsProtocolVersion_scanned [OF i token_length(2) scan_003]
  show "fst (hsProtocolVersion conn) = Inr ()" using a h by simp
  show "sent (c (snd (hsProtocolVersion conn))) = sent (c conn) @ bytes_of ''RFB 003.003'' @ [0x0A]"
    using a h by (simp add: negotiated_def ProtocolVersion3_3_def ProtocolVersion3_8_def)
next
  assume a: "incoming (c conn) = bytes_of ''RFB 003.002'' @ [0x0A] @ rest"
  then have i: "incoming (c conn) = (bytes_of ''RFB 003.002'' @ [0x0A]) @ rest" by simp
  note h = hsProtocolVersion_scanned [OF i token_length(3) scan_002]
  show "fst (hsProtocolVersion conn) = Inl (Err UnsupportedVersion)" using h by simp
  show "sent (c (snd (hsProtocolVersion conn))) = sent (c conn)" using h by simp
qed

theorem hsProtocolVersion_negotiation_witness:
  "fst (hsProtocolVersion (exampleConn trueColor32 (bytes_of ''RFB 003.889'' @ [0x0A]))) = Inr ()
   \<and> sent (c (snd (hsProtocolVersion (exampleConn trueColor32 (bytes_of ''RFB 003.889'' @ [0x0A])))))
       = bytes_of ''RFB 003.008'' @ [0x0A]
   \<and> protocolVersion (snd (hsProtocolVersion (exampleConn trueColor32 (bytes_of ''RFB 003.889'' @ [0x0A]))))
       = ProtocolVersion3_8
   \<and> sent (c (snd (hsProtocolVersion (exampleConn trueColor32 (bytes_of ''RFB 003.003'' @ [0x0A])))))
       = bytes_of ''RFB 003.003'' @ [0x0A]
   \<and> fst (hsProtocolVersion (exampleConn trueColor32 (bytes_of ''RFB 003.002'' @ [0x0A])))
       = Inl (Err UnsupportedVersion)
   \<and> sent (c (snd (hsProtocolVersion (exampleConn trueColor32 (bytes_of ''RFB 003.002'' @ [0x0A]))))) = []"
proof -
  let ?c889 = "exampleConn trueColor32 (bytes_of ''RFB 003.889'' @ [0x0A])"
  let ?c003 = "exampleConn trueColor32 (bytes_of ''RFB 003.003'' @ [0x0A])"
  let ?c002 = "exampleConn trueColor32 (bytes_of ''RFB 003.002'' @ [0x0A])"
  have i: "incoming (c ?c889) = (bytes_of ''RFB 003.889'' @ [0x0A]) @ []"
    "incoming (c ?c889) = bytes_of ''RFB 003.889'' @ [0x0A] @ []"
    "incoming (c ?c003) = bytes_of ''RFB 003.003'' @ [0x0A] @ []"
    "incoming (c ?c002) = bytes_of ''RFB 003.002'' @ [0x0A] @ []"
    by (simp_all add: exampleConn_def exampleNet_def)
  have w: "writable (c ?c889)" "writable (c ?c003)" "sent (c ?c889) = []" "sent (c ?c003) = []"
    "sent (c ?c002) = []"
    by (simp_all add: exampleConn_def exampleNet_def)
  note T = hsProtocolVersion_negotiation [where conn = ?c889
      and token = "bytes_of ''RFB 003.889'' @ [0x0A]" and rest = "[]" and n = 2 and major = 3
      and minor = 889, THEN conjunct1, rule_format]
  have p: "incoming (c ?c889) = (bytes_of ''RFB 003.889'' @ [0x0A]) @ []
      \<and> length (bytes_of ''RFB 003.889'' @ [0x0A]) = 12
      \<and> sscanfVersion (bytes_of ''RFB 003.889'' @ [0x0A]) = Inr (2, 3, 889)"
    using i(1) token_length(1) scan_889 by blast
  from T [OF p] w(1,3)
  have 1: "fst (hsProtocolVersion ?c889) = Inr ()
     \<and> sent (c (snd (hsProtocolVersion ?c889))) = bytes_of ''RFB 003.008'' @ [0x0A]
     \<and> protocolVersion (snd (hsProtocolVersion ?c889)) = ProtocolVersion3_8"
    by (simp add: ProtocolVersion3_8_def)
  from hsProtocolVersion_negotiation [where conn = ?c003 and rest = "[]",
      THEN conjunct2, THEN conjunct2, THEN conjunct1, rule_format] i(3) w(2,4)
  have 2: "sent (c (snd (hsProtocolVersion ?c003))) = bytes_of ''RFB 003.003'' @ [0x0A]"
    by simp
  from hsProtocolVersion_negotiation [where conn = ?c002 and rest = "[]",
      THEN conjunct2, THEN conjunct2, THEN conjunct2, rule_format] i(4) w(5)
  have 3: "fst (hsProtocolVersion ?c002) = Inl (Err UnsupportedVersion)
     \<and> sent (c (snd (hsProtocolVersion ?c002))) = []"
    by simp
  from 1 2 3 show ?thesis by simp
qed

subsection \<open>The VNC authentication response\<close>

lemma swapBits_reverse: "swapBits b = reverseBits b"
  unfolding swapBits_def reverseBits_def Let_def
  apply (rule bit_word_eqI)
  apply (simp add: bit_simps)
  subgoal for n
    apply (cases "n = 0"; cases "n = 1"; cases "n = 2"; cases "n = 3";
           cases "n = 4"; cases "n = 5"; cases "n = 6"; cases "n = 7")
           apply (simp_all add: bit_simps mult.commute [of _ "2::byte"] eval_nat_numeral)
    done
  done

lemma copyInto_padded: "copyInto (replicate 8 0) pw = paddedKey pw"
  by (cases "length pw < 8") (auto simp: copyInto_def paddedKey_def Let_def min_def)

lemma length_paddedKey: "length (paddedKey pw) = 8"
  by (simp add: paddedKey_def)

lemma be64_take: "be64 (take 8 bs) = be64 bs"
  by (simp add: be64_def)

lemma length_put_be64: "length (put_be64 v) = 8"
  by (simp add: put_be64_def)

lemma encrypt_ecb:
  assumes "length challenge = 16"
  shows "encrypt des pw challenge = Inr (ecbResponse des pw challenge)"
proof -
  have key: "map swapBits (copyInto (replicate 8 0) pw) = map reverseBits (paddedKey pw)"
    by (simp add: copyInto_padded swapBits_reverse)
  show ?thesis
    unfolding encrypt_def key Let_def
    using assms by (simp add: desEncrypt_def ecbResponse_def length_paddedKey be64_take Let_def)
qed

text \<open>
  Claim C5: for every password and every 16-byte challenge the VNC handshake writes
  exactly the 16 bytes obtained by padding or truncating the password to an 8-byte key,
  reversing the bit order of each key byte, and encrypting the two 8-byte halves of the
  challenge independently with that key. The three swaps of the source are the bit
  reversal (\<open>swapBits_reverse\<close>); the result is a function of the password and the
  challenge alone. The statement holds for any block function in place of DES, on a
  transport that accepts the write.
\<close>

theorem VNCAuth_Handshake_response:
  assumes "length challenge = 16" and "incoming (c conn) = challenge @ rest"
    and "writable (c conn)"
  shows "encrypt des pw challenge = Inr (ecbResponse des pw challenge)
       \<and> length (ecbResponse des pw challenge) = 16
       \<and> VNCAuth_Handshake des pw conn =
           (Inr (), conn\<lparr>c := (c conn)\<lparr>incoming := rest,
                                         sent := sent (c conn) @ ecbResponse des pw challenge\<rparr>\<rparr>)"
proof -
  have e: "encrypt des pw challenge = Inr (ecbResponse des pw challenge)"
    using assms(1) by (rule encrypt_ecb)
  have l: "length (ecbResponse des pw challenge) = 16"
    by (simp add: ecbResponse_def Let_def length_put_be64)
  have r: "onReader (ReadFull 16) conn = (Inr challenge, conn\<lparr>c := (c conn)\<lparr>incoming := rest\<rparr>\<rparr>)"
    using assms(1,2) by (simp add: onReader_ReadFull)
  have h: "VNCAuth_Handshake des pw conn =
           (Inr (), conn\<lparr>c := (c conn)\<lparr>incoming := rest,
                                         sent := sent (c conn) @ ecbResponse des pw challenge\<rparr>\<rparr>)"
    using assms(3) by (simp add: VNCAuth_Handshake_def r e connWrite_def)
  from e l h show ?thesis by simp
qed

theorem VNCAuth_Handshake_response_witness:
  "length exampleChallenge = 16
   \<and> incoming (c (exampleConn trueColor32 (exampleChallenge @ [1]))) = exampleChallenge @ [1]
   \<and> writable (c (exampleConn trueColor32 (exampleChallenge @ [1])))
   \<and> length (ecbResponse xorDes (bytes_of ''password'') exampleChallenge) = 16
   \<and> fst (VNCAuth_Handshake xorDes (bytes_of ''password'')
            (exampleConn trueColor32 (exampleChallenge @ [1]))) = Inr ()"
proof -
  have h1: "length exampleChallenge = 16" by (simp add: exampleChallenge_def)
  have h2: "incoming (c (exampleConn trueColor32 (exampleChallenge @ [1]))) = exampleChallenge @ [1]"
    by (simp add: exampleConn_def exampleNet_def)
  have h3: "writable (c (exampleConn trueColor32 (exampleChallenge @ [1])))"
    by (simp add: exampleConn_def exampleNet_def)
  from VNCAuth_Handshake_response [OF h1 h2 h3, of xorDes "bytes_of ''password''"] h1 h2 h3
  show ?thesis by simp
qed

subsection \<open>Hextile tiling\<close>

lemma tileCount_less: "k < tileCount n \<longleftrightarrow> 16 * k < n"
proof -
  have "k < (n + 15) div 16 \<longleftrightarrow> Suc k \<le> (n + 15) div 16" by auto
  also have "\<dots> \<longleftrightarrow> Suc k * 16 \<le> n + 15" by (simp add: less_eq_div_iff_mult_less_eq)
  also have "\<dots> \<longleftrightarrow> 16 * k < n" by auto
  finally show ?thesis by (simp add: tileCount_def)
qed

lemma tileCount_Suc: "16 * k < n \<Longrightarrow> (Suc k = tileCount n) = (n \<le> 16 * k + 16)"
  using tileCount_less [of "Suc k" n] tileCount_less [of k n] by auto

lemma last_tile:
  assumes "16 * k < (n::nat)"
  shows "(16 * k = n - n mod 16) = (n mod 16 \<noteq> 0 \<and> n \<le> 16 * k + 16)"
proof -
  define q where "q = n div 16"
  define r where "r = n mod 16"
  have e: "n - n mod 16 = 16 * q" by (simp add: q_def minus_mod_eq_mult_div)
  have n: "n = 16 * q + r" by (simp add: q_def r_def)
  have r: "r < 16" by (simp add: r_def)
  have "(k = q) = (r \<noteq> 0 \<and> n \<le> 16 * k + 16)"
  proof
    assume "k = q"
    with assms n r show "r \<noteq> 0 \<and> n \<le> 16 * k + 16" by auto
  next
    assume a: "r \<noteq> 0 \<and> n \<le> 16 * k + 16"
    have "16 * k < 16 * q + 16" using assms n r by linarith
    then have "16 * k < 16 * (q + 1)" by simp
    then have 1: "k < q + 1" by (simp only: mult_less_cancel1)
    have "16 * q < 16 * k + 16" using a n by linarith
    then have "16 * q < 16 * (k + 1)" by simp
    then have 2: "q < k + 1" by (simp only: mult_less_cancel1)
    from 1 2 show "k = q" by simp
  qed
  then show ?thesis by (simp add: e r_def)
qed

lemma tileSize_loop:
  assumes "16 * k < n"
  shows "(if 16 * k = n - n mod 16 then n mod 16 else 16) = tileSize n k"
proof -
  have "(k + 1 = tileCount n) = (n \<le> 16 * k + 16)"
    using tileCount_Suc [OF assms] by simp
  then show ?thesis
    unfolding tileSize_def last_tile [OF assms] by (cases "n mod 16 = 0") simp_all
qed

lemma tileSize_next: "16 * k + 16 < n \<Longrightarrow> tileSize n k = 16"
  using tileCount_less [of "Suc k" n] by (simp add: tileSize_def)

lemma tileSize_reach:
  assumes "16 * k < n" "x < n" "\<not> x < 16 * k + tileSize n k"
  shows "16 * k + 16 \<le> x"
proof (cases "tileSize n k = 16")
  case True
  with assms(3) show ?thesis by simp
next
  case False
  then have l: "k + 1 = tileCount n" and t: "tileSize n k = n mod 16" and z: "n mod 16 \<noteq> 0"
    by (simp_all add: tileSize_def split: if_splits)
  from l assms(1) have le: "n \<le> 16 * k + 16" using tileCount_Suc [OF assms(1)] by simp
  from last_tile [OF assms(1)] z le have "16 * k = n - n mod 16" by simp
  moreover have "n mod 16 \<le> n" by simp
  ultimately have "16 * k + n mod 16 = n" by linarith
  with assms(2,3) t show ?thesis by simp
qed

lemma drawSrc_log [simp]:
  "hx_tiles (drawSrc width height r src st) = hx_tiles st"
  "hx_drawn (drawSrc width height r src st) = hx_drawn st @ [r]"
  by (simp_all add: drawSrc_def)

lemma onStream_log:
  "onStream m st = (res, st') \<Longrightarrow> hx_tiles st' = hx_tiles st \<and> hx_drawn st' = hx_drawn st"
  by (auto simp: onStream_def split: prod.splits)

lemma readColor_bg_log:
  "readColor b pf (\<lambda>col s. s\<lparr>hx_bg := col\<rparr>) st = (res, st') \<Longrightarrow>
   hx_tiles st' = hx_tiles st \<and> hx_drawn st' = hx_drawn st"
  by (auto simp: readColor_def dest!: onStream_log split: if_splits prod.splits sum.splits)

lemma readColor_fg_log:
  "readColor b pf (\<lambda>col s. s\<lparr>hx_fg := col\<rparr>) st = (res, st') \<Longrightarrow>
   hx_tiles st' = hx_tiles st \<and> hx_drawn st' = hx_drawn st"
  by (auto simp: readColor_def dest!: onStream_log split: if_splits prod.splits sum.splits)

lemma hextileSubrects_log:
  "hextileSubrects pf width height tx ty colored n st = (res, st') \<Longrightarrow>
   hx_tiles st' = hx_tiles st \<and> (\<exists>ds. hx_drawn st' = hx_drawn st @ ds)"
proof (induction n arbitrary: st)
  case 0
  then show ?case by simp
next
  case (Suc n)
  show ?case
  proof (cases "if colored then onStream (readPixelToUniform pf) st else (Inr (hx_fg st), st)")
    case (Pair r1 st1)
    then have l1: "hx_tiles st1 = hx_tiles st \<and> hx_drawn st1 = hx_drawn st"
      by (auto dest: onStream_log split: if_splits)
    show ?thesis
    proof (cases r1)
      case (Inl e)
      with Suc.prems Pair l1 show ?thesis by simp
    next
      case (Inr uImg)
      show ?thesis
      proof (cases "onStream (ReadFull 2) st1")
        case p2: (Pair r2 st2)
        then have l2: "hx_tiles st2 = hx_tiles st1 \<and> hx_drawn st2 = hx_drawn st1"
          by (rule onStream_log)
        show ?thesis
        proof (cases r2)
          case i2: (Inl e)
          with Suc.prems Pair Inr p2 l1 l2 show ?thesis by simp
        next
          case box: (Inr subrectBox)
          let ?st3 = "drawSrc width height
                 (tx + unat (drop_bit 4 (subrectBox ! 0)), ty + unat (subrectBox ! 0 AND 0xF),
                  tx + unat (drop_bit 4 (subrectBox ! 0)) + (unat (drop_bit 4 (subrectBox ! 1)) + 1),
                  ty + unat (subrectBox ! 0 AND 0xF) + (unat (subrectBox ! 1 AND 0xF) + 1))
                 (\<lambda>p. uImg) st2"
          from Suc.prems Pair Inr p2 box
          have "hextileSubrects pf width height tx ty colored n ?st3 = (res, st')"
            by (simp add: Let_def)
          from Suc.IH [OF this] l1 l2 show ?thesis by auto
        qed
      qed
    qed
  qed
qed

lemma hextileTile_log:
  assumes "hextileTile pf width height tx ty tw th st = (Inr (), st')"
  shows "hx_tiles st' = hx_tiles st @ [(tx, ty, tx + tw, ty + th)]
       \<and> (\<exists>ds. hx_drawn st' = hx_drawn st @ (tx, ty, tx + tw, ty + th) # ds)"
proof -
  let ?r = "(tx, ty, tx + tw, ty + th)"
  from assms obtain subencoding st1 where
    r1: "onStream read_u8 st = (Inr subencoding, st1)"
    by (auto simp: hextileTile_def split: prod.splits sum.splits)
  from onStream_log [OF r1] have l1: "hx_tiles st1 = hx_tiles st" "hx_drawn st1 = hx_drawn st"
    by simp_all
  let ?st2 = "st1\<lparr>hx_tiles := hx_tiles st1 @ [?r]\<rparr>"
  show ?thesis
  proof (cases "subencoding AND 1 \<noteq> 0")
    case True
    with assms r1 obtain rgbaBuffer st3 where
      r3: "onStream (ReadPixels pf (int (tw * th))) ?st2 = (Inr rgbaBuffer, st3)" and
      s: "st' = drawSrc width height ?r (rawSrc rgbaBuffer tx ty tw) st3"
      by (auto simp: hextileTile_def Let_def split: prod.splits sum.splits)
    from onStream_log [OF r3] l1 s show ?thesis by simp
  next
    case False
    with assms r1 obtain st3 st4 where
      b: "readColor (subencoding AND 2 \<noteq> 0) pf (\<lambda>col s. s\<lparr>hx_bg := col\<rparr>) ?st2 = (Inr (), st3)" and
      f: "readColor (subencoding AND 4 \<noteq> 0) pf (\<lambda>col s. s\<lparr>hx_fg := col\<rparr>) st3 = (Inr (), st4)"
      by (auto simp: hextileTile_def Let_def split: prod.splits sum.splits)
    from readColor_bg_log [OF b] readColor_fg_log [OF f] l1
    have l4: "hx_tiles st4 = hx_tiles st @ [?r]" "hx_drawn st4 = hx_drawn st" by simp_all
    let ?st5 = "drawSrc width height ?r (\<lambda>p. hx_bg st4) st4"
    show ?thesis
    proof (cases "subencoding AND 8 = 0")
      case True
      with assms r1 False b f have "st' = ?st5"
        by (simp add: hextileTile_def Let_def)
      with l4 show ?thesis by simp
    next
      case sub: False
      with assms r1 False b f obtain numSubRect st6 where
        r6: "onStream read_u8 ?st5 = (Inr numSubRect, st6)" and
        s: "hextileSubrects pf width height tx ty (subencoding AND 16 \<noteq> 0) (unat numSubRect) st6
            = (Inr (), st')"
        by (auto simp: hextileTile_def Let_def split: prod.splits sum.splits)
      from onStream_log [OF r6] l4
      have l6: "hx_tiles st6 = hx_tiles st @ [?r]" "hx_drawn st6 = hx_drawn st @ [?r]" by simp_all
      from hextileSubrects_log [OF s] l6 show ?thesis by auto
    qed
  qed
qed

lemma hextileCols_log:
  assumes "hextileCols pf width height ty th (16 * k) tw st = (Inr (), st')"
    and "16 * k < width \<longrightarrow> tw = 16"
  shows "hx_tiles st' = hx_tiles st
           @ map (\<lambda>col. (16 * col, ty, 16 * col + tileSize width col, ty + th)) [k..<tileCount width]
       \<and> (\<exists>ds. hx_drawn st' = hx_drawn st @ ds
             \<and> (\<forall>x y. 16 * k \<le> x \<and> x < width \<and> ty \<le> y \<and> y < ty + th
                   \<longrightarrow> (\<exists>r\<in>set ds. inRect r (x, y))))"
  using assms
proof (induction "tileCount width - k" arbitrary: k tw st)
  case 0
  then have "\<not> k < tileCount width" by simp
  then have e: "\<not> 16 * k < width" by (simp add: tileCount_less)
  with "0.prems"(1) have "st' = st" by (simp add: hextileCols.simps)
  moreover from \<open>\<not> k < tileCount width\<close> have "[k..<tileCount width] = []" by simp
  ultimately show ?case using e by auto
next
  case (Suc n)
  then have lt: "k < tileCount width" by simp
  then have w: "16 * k < width" by (simp add: tileCount_less)
  with Suc.prems(2) have tw: "tw = 16" by simp
  let ?tw = "tileSize width k"
  let ?r = "(16 * k, ty, 16 * k + ?tw, ty + th)"
  have tw': "(if 16 * k = width - width mod 16 then width mod 16 else tw) = ?tw"
    unfolding tw by (rule tileSize_loop [OF w])
  have u: "hextileCols pf width height ty th (16 * k) tw st =
      (case hextileTile pf width height (16 * k) ty ?tw th st of
         (Inl e, st1) \<Rightarrow> (Inl e, st1)
       | (Inr _, st1) \<Rightarrow> hextileCols pf width height ty th (16 * k + 16) ?tw st1)"
    by (subst hextileCols.simps) (simp add: w tw' Let_def)
  have s16: "16 * k + 16 = 16 * Suc k" by simp
  from Suc.prems(1) obtain st1 where
    t: "hextileTile pf width height (16 * k) ty ?tw th st = (Inr (), st1)" and
    c: "hextileCols pf width height ty th (16 * Suc k) ?tw st1 = (Inr (), st')"
    unfolding u s16 by (auto split: prod.splits sum.splits)
  from hextileTile_log [OF t] obtain ds1 where
    t1: "hx_tiles st1 = hx_tiles st @ [?r]" and d1: "hx_drawn st1 = hx_drawn st @ ?r # ds1"
    by blast
  have n: "n = tileCount width - Suc k" using Suc.hyps(2) by simp
  have nx: "16 * Suc k < width \<longrightarrow> ?tw = 16" using tileSize_next [of k width] by simp
  from Suc.hyps(1) [OF n c nx] obtain ds2 where
    t2: "hx_tiles st' = hx_tiles st1
           @ map (\<lambda>col. (16 * col, ty, 16 * col + tileSize width col, ty + th)) [Suc k..<tileCount width]" and
    d2: "hx_drawn st' = hx_drawn st1 @ ds2" and
    cv: "\<forall>x y. 16 * Suc k \<le> x \<and> x < width \<and> ty \<le> y \<and> y < ty + th
             \<longrightarrow> (\<exists>r\<in>set ds2. inRect r (x, y))"
    by blast
  have tiles: "hx_tiles st' = hx_tiles st
           @ map (\<lambda>col. (16 * col, ty, 16 * col + tileSize width col, ty + th)) [k..<tileCount width]"
    using t1 t2 lt by (simp add: upt_conv_Cons)
  have drawn: "hx_drawn st' = hx_drawn st @ (?r # ds1 @ ds2)" using d1 d2 by simp
  have cover: "\<forall>x y. 16 * k \<le> x \<and> x < width \<and> ty \<le> y \<and> y < ty + th
                   \<longrightarrow> (\<exists>r\<in>set (?r # ds1 @ ds2). inRect r (x, y))"
  proof (intro allI impI)
    fix x y
    assume a: "16 * k \<le> x \<and> x < width \<and> ty \<le> y \<and> y < ty + th"
    show "\<exists>r\<in>set (?r # ds1 @ ds2). inRect r (x, y)"
    proof (cases "x < 16 * k + ?tw")
      case True
      with a have "inRect ?r (x, y)" by simp
      then show ?thesis by simp
    next
      case False
      with a w have "16 * Suc k \<le> x" using tileSize_reach [of k width x] by simp
      with a cv have "\<exists>r\<in>set ds2. inRect r (x, y)" by blast
      then show ?thesis by (auto simp del: inRect.simps)
    qed
  qed
  from tiles drawn cover show ?case by blast
qed

lemma hextileRows_log:
  assumes "hextileRows pf width height (16 * k) th st = (Inr (), st')"
    and "16 * k < height \<longrightarrow> th = 16"
  shows "hx_tiles st' = hx_tiles st
           @ concat (map (\<lambda>row. map (\<lambda>col. (16 * col, 16 * row, 16 * col + tileSize width col,
                                             16 * row + tileSize height row))
                                    [0..<tileCount width])
                        [k..<tileCount height])
       \<and> (\<exists>ds. hx_drawn st' = hx_drawn st @ ds
             \<and> (\<forall>x y. x < width \<and> 16 * k \<le> y \<and> y < height
                   \<longrightarrow> (\<exists>r\<in>set ds. inRect r (x, y))))"
  using assms
proof (induction "tileCount height - k" arbitrary: k th st)
  case 0
  then have "\<not> k < tileCount height" by simp
  then have e: "\<not> 16 * k < height" by (simp add: tileCount_less)
  with "0.prems"(1) have "st' = st" by (simp add: hextileRows.simps)
  moreover from \<open>\<not> k < tileCount height\<close> have "[k..<tileCount height] = []" by simp
  ultimately show ?case using e by auto
next
  case (Suc n)
  then have lt: "k < tileCount height" by simp
  then have h: "16 * k < height" by (simp add: tileCount_less)
  with Suc.prems(2) have th: "th = 16" by simp
  let ?th = "tileSize height k"
  have th': "(if 16 * k = height - height mod 16 then height mod 16 else th) = ?th"
    unfolding th by (rule tileSize_loop [OF h])
  have u: "hextileRows pf width height (16 * k) th st =
      (case hextileCols pf width height (16 * k) ?th (16 * 0) 16 st of
         (Inl e, st1) \<Rightarrow> (Inl e, st1)
       | (Inr _, st1) \<Rightarrow> hextileRows pf width height (16 * k + 16) ?th st1)"
    by (subst hextileRows.simps) (simp add: h th' Let_def)
  have s16: "16 * k + 16 = 16 * Suc k" by simp
  from Suc.prems(1) obtain st1 where
    c: "hextileCols pf width height (16 * k) ?th (16 * 0) 16 st = (Inr (), st1)" and
    r: "hextileRows pf width height (16 * Suc k) ?th st1 = (Inr (), st')"
    unfolding u s16 by (auto split: prod.splits sum.splits)
  from hextileCols_log [OF c] obtain ds1 where
    t1: "hx_tiles st1 = hx_tiles st
           @ map (\<lambda>col. (16 * col, 16 * k, 16 * col + tileSize width col, 16 * k + ?th))
                 [0..<tileCount width]" and
    d1: "hx_drawn st1 = hx_drawn st @ ds1" and
    cv1: "\<forall>x y. 16 * 0 \<le> x \<and> x < width \<and> 16 * k \<le> y \<and> y < 16 * k + ?th
             \<longrightarrow> (\<exists>r\<in>set ds1. inRect r (x, y))"
    by blast
  have n: "n = tileCount height - Suc k" using Suc.hyps(2) by simp
  have nx: "16 * Suc k < height \<longrightarrow> ?th = 16" using tileSize_next [of k height] by simp
  from Suc.hyps(1) [OF n r nx] obtain ds2 where
    t2: "hx_tiles st' = hx_tiles st1
           @ concat (map (\<lambda>row. map (\<lambda>col. (16 * col, 16 * row, 16 * col + tileSize width col,
                                             16 * row + tileSize height row))
                                    [0..<tileCount width])
                        [Suc k..<tileCount height])" and
    d2: "hx_drawn st' = hx_drawn st1 @ ds2" and
    cv2: "\<forall>x y. x < width \<and> 16 * Suc k \<le> y \<and> y < height
             \<longrightarrow> (\<exists>r\<in>set ds2. inRect r (x, y))"
    by blast
  have tiles: "hx_tiles st' = hx_tiles st
           @ concat (map (\<lambda>row. map (\<lambda>col. (16 * col, 16 * row, 16 * col + tileSize width col,
                                             16 * row + tileSize height row))
                                    [0..<tileCount width])
                        [k..<tileCount height])"
    using t1 t2 lt by (simp add: upt_conv_Cons)
  have drawn: "hx_drawn st' = hx_drawn st @ (ds1 @ ds2)" using d1 d2 by simp
  have cover: "\<forall>x y. x < width \<and> 16 * k \<le> y \<and> y < height
                   \<longrightarrow> (\<exists>r\<in>set (ds1 @ ds2). inRect r (x, y))"
  proof (intro allI impI)
    fix x y
    assume a: "x < width \<and> 16 * k \<le> y \<and> y < height"
    show "\<exists>r\<in>set (ds1 @ ds2). inRect r (x, y)"
    proof (cases "y < 16 * k + ?th")
      case True
      with a cv1 have "\<exists>r\<in>set ds1. inRect r (x, y)" by simp
      then show ?thesis by (auto simp del: inRect.simps)
    next
      case False
      with a h have "16 * Suc k \<le> y" using tileSize_reach [of k height y] by simp
      with a cv2 have "\<exists>r\<in>set ds2. inRect r (x, y)" by blast
      then show ?thesis by (auto simp del: inRect.simps)
    qed
  qed
  from tiles drawn cover show ?case by blast
qed

text \<open>
  What the draw calls leave in the image. \<open>image.NewRGBA\<close> gives an image whose
  pixels are all transparent (alpha 0), and every source the decoder draws from is opaque:
  \<open>ReadPixels\<close> stores the alpha 255 with every pixel, and the background and
  foreground start as \<open>color.Black\<close>. So \<open>painted\<close> holds at the start and after
  every step of the decoder, whether the step succeeds or not.
\<close>

lemma ReadPixels_alpha:
  assumes "ReadPixels pf (int n) s = (Inr buf, s')" "i < n"
  shows "buf ! (4 * i + 3) = 255"
proof -
  from assms(1) have "readPixelsLoop pf n s = (Inr buf, s')" by (simp add: ReadPixels_def)
  from readPixelsLoop_buffer [OF this] assms(2) show ?thesis by simp
qed

lemma readPixelToUniform_alpha:
  assumes "readPixelToUniform pf s = (Inr col, s')"
  shows "alpha col = 255"
proof -
  from assms obtain buffer where
    r: "ReadPixels pf (int 1) s = (Inr buffer, s')" and
    c: "col = (buffer ! 0, buffer ! 1, buffer ! 2, buffer ! 3)"
    by (auto simp: readPixelToUniform_def bind_io_def split: prod.splits sum.splits)
  from ReadPixels_alpha [OF r, of 0] have "buffer ! 3 = 255" by simp
  with c show ?thesis by simp
qed

lemma rawSrc_alpha:
  assumes r: "ReadPixels pf (int (tw * th)) s = (Inr buf, s')"
    and p: "inRect (tx, ty, tx + tw, ty + th) p"
  shows "alpha (rawSrc buf tx ty tw p) = 255"
proof -
  obtain x y where xy: "p = (x, y)" by (cases p)
  define i where "i = (y - ty) * tw + (x - tx)"
  from p xy have a: "x - tx < tw" and b: "y - ty < th" by auto
  from b have "Suc (y - ty) \<le> th" by simp
  then have "Suc (y - ty) * tw \<le> th * tw" by (rule mult_le_mono1)
  moreover from a have "i < Suc (y - ty) * tw" by (simp add: i_def)
  ultimately have "i < tw * th" by (simp add: mult.commute)
  from ReadPixels_alpha [OF r this] have "buf ! (4 * i + 3) = 255" .
  moreover have "(y - ty) * (4 * tw) + (x - tx) * 4 = 4 * i" by (simp add: i_def algebra_simps)
  ultimately show ?thesis by (simp add: rawSrc_def xy Let_def)
qed

lemma drawSrc_painted:
  assumes "painted width height st"
    and "\<forall>p. inRect r p \<and> fst p < width \<and> snd p < height \<longrightarrow> alpha (src p) = 255"
  shows "painted width height (drawSrc width height r src st)"
  using assms unfolding painted_def drawSrc_def by (auto simp del: inRect.simps)

lemma onStream_painted:
  "onStream m st = (res, st') \<Longrightarrow> painted width height st \<Longrightarrow> painted width height st'"
  by (auto simp: onStream_def painted_def split: prod.splits)

lemma onStream_uniform_alpha:
  "onStream (readPixelToUniform pf) st = (Inr col, st') \<Longrightarrow> alpha col = 255"
  by (auto simp: onStream_def split: prod.splits dest: readPixelToUniform_alpha)

lemma readColor_bg_painted:
  assumes "readColor b pf (\<lambda>col s. s\<lparr>hx_bg := col\<rparr>) st = (res, st')" "painted width height st"
  shows "painted width height st'"
proof (cases b)
  case False
  with assms show ?thesis by (simp add: readColor_def)
next
  case True
  show ?thesis
  proof (cases "onStream (readPixelToUniform pf) st")
    case (Pair r1 st1)
    from onStream_painted [OF Pair assms(2)] have p1: "painted width height st1" .
    show ?thesis
    proof (cases r1)
      case (Inl e)
      with assms(1) True Pair p1 show ?thesis by (simp add: readColor_def)
    next
      case (Inr col)
      with Pair have "alpha col = 255" by (auto dest: onStream_uniform_alpha)
      moreover from assms(1) True Pair Inr have "st' = st1\<lparr>hx_bg := col\<rparr>" by (simp add: readColor_def)
      ultimately show ?thesis using p1 by (simp add: painted_def)
    qed
  qed
qed

lemma readColor_fg_painted:
  assumes "readColor b pf (\<lambda>col s. s\<lparr>hx_fg := col\<rparr>) st = (res, st')" "painted width height st"
  shows "painted width height st'"
proof (cases b)
  case False
  with assms show ?thesis by (simp add: readColor_def)
next
  case True
  show ?thesis
  proof (cases "onStream (readPixelToUniform pf) st")
    case (Pair r1 st1)
    from onStream_painted [OF Pair assms(2)] have p1: "painted width height st1" .
    show ?thesis
    proof (cases r1)
      case (Inl e)
      with assms(1) True Pair p1 show ?thesis by (simp add: readColor_def)
    next
      case (Inr col)
      with Pair have "alpha col = 255" by (auto dest: onStream_uniform_alpha)
      moreover from assms(1) True Pair Inr have "st' = st1\<lparr>hx_fg := col\<rparr>" by (simp add: readColor_def)
      ultimately show ?thesis using p1 by (simp add: painted_def)
    qed
  qed
qed

lemma hextileSubrects_painted:
  "hextileSubrects pf width height tx ty colored n st = (res, st') \<Longrightarrow> painted width height st \<Longrightarrow>
   painted width height st'"
proof (induction n arbitrary: st)
  case 0
  then show ?case by simp
next
  case (Suc n)
  show ?case
  proof (cases "if colored then onStream (readPixelToUniform pf) st else (Inr (hx_fg st), st)")
    case (Pair r1 st1)
    then have p1: "painted width height st1"
      using Suc.prems(2) by (auto dest: onStream_painted split: if_splits)
    show ?thesis
    proof (cases r1)
      case (Inl e)
      with Suc.prems Pair p1 show ?thesis by simp
    next
      case (Inr uImg)
      with Pair Suc.prems(2) have u: "alpha uImg = 255"
        by (auto simp: painted_def dest: onStream_uniform_alpha split: if_splits)
      show ?thesis
      proof (cases "onStream (ReadFull 2) st1")
        case p2: (Pair r2 st2)
        from onStream_painted [OF p2 p1] have q2: "painted width height st2" .
        show ?thesis
        proof (cases r2)
          case i2: (Inl e)
          with Suc.prems Pair Inr p2 q2 show ?thesis by simp
        next
          case box: (Inr subrectBox)
          let ?st3 = "drawSrc width height
                 (tx + unat (drop_bit 4 (subrectBox ! 0)), ty + unat (subrectBox ! 0 AND 0xF),
                  tx + unat (drop_bit 4 (subrectBox ! 0)) + (unat (drop_bit 4 (subrectBox ! 1)) + 1),
                  ty + unat (subrectBox ! 0 AND 0xF) + (unat (subrectBox ! 1 AND 0xF) + 1))
                 (\<lambda>p. uImg) st2"
          from Suc.prems Pair Inr p2 box
          have "hextileSubrects pf width height tx ty colored n ?st3 = (res, st')"
            by (simp add: Let_def)
          moreover have "painted width height ?st3"
            by (rule drawSrc_painted [OF q2]) (simp add: u)
          ultimately show ?thesis by (rule Suc.IH)
        qed
      qed
    qed
  qed
qed

lemma hextileTile_painted:
  assumes "hextileTile pf width height tx ty tw th st = (res, st')" "painted width height st"
  shows "painted width height st'"
proof (cases "onStream read_u8 st")
  case (Pair r1 st1)
  from onStream_painted [OF Pair assms(2)] have p1: "painted width height st1" .
  show ?thesis
  proof (cases r1)
    case (Inl e)
    with assms(1) Pair p1 show ?thesis by (simp add: hextileTile_def)
  next
    case (Inr subencoding)
    let ?r = "(tx, ty, tx + tw, ty + th)"
    let ?st2 = "st1\<lparr>hx_tiles := hx_tiles st1 @ [?r]\<rparr>"
    from p1 have p2: "painted width height ?st2" by (simp add: painted_def)
    show ?thesis
    proof (cases "subencoding AND 1 \<noteq> 0")
      case True
      show ?thesis
      proof (cases "onStream (ReadPixels pf (int (tw * th))) ?st2")
        case r3: (Pair r3 st3)
        from onStream_painted [OF r3 p2] have p3: "painted width height st3" .
        show ?thesis
        proof (cases r3)
          case (Inl e)
          with assms(1) Pair Inr True r3 p3 show ?thesis by (simp add: hextileTile_def Let_def)
        next
          case buf: (Inr rgbaBuffer)
          from r3 buf obtain s' where
            rp: "ReadPixels pf (int (tw * th)) (hx_in ?st2) = (Inr rgbaBuffer, s')"
            by (auto simp: onStream_def split: prod.splits)
          from assms(1) Pair Inr True r3 buf
          have "st' = drawSrc width height ?r (rawSrc rgbaBuffer tx ty tw) st3"
            by (simp add: hextileTile_def Let_def)
          moreover have "painted width height (drawSrc width height ?r (rawSrc rgbaBuffer tx ty tw) st3)"
            by (rule drawSrc_painted [OF p3]) (auto simp del: inRect.simps intro: rawSrc_alpha [OF rp])
          ultimately show ?thesis by simp
        qed
      qed
    next
      case False
      show ?thesis
      proof (cases "readColor (subencoding AND 2 \<noteq> 0) pf (\<lambda>col s. s\<lparr>hx_bg := col\<rparr>) ?st2")
        case b: (Pair rb st3)
        from readColor_bg_painted [OF b p2] have p3: "painted width height st3" .
        show ?thesis
        proof (cases rb)
          case (Inl e)
          with assms(1) Pair Inr False b p3 show ?thesis by (simp add: hextileTile_def Let_def)
        next
          case okb: (Inr ub)
          show ?thesis
          proof (cases "readColor (subencoding AND 4 \<noteq> 0) pf (\<lambda>col s. s\<lparr>hx_fg := col\<rparr>) st3")
            case f: (Pair rf st4)
            from readColor_fg_painted [OF f p3] have p4: "painted width height st4" .
            show ?thesis
            proof (cases rf)
              case (Inl e)
              with assms(1) Pair Inr False b okb f p4 show ?thesis
                by (simp add: hextileTile_def Let_def)
            next
              case okf: (Inr uf)
              let ?st5 = "drawSrc width height ?r (\<lambda>p. hx_bg st4) st4"
              from p4 have bg: "alpha (hx_bg st4) = 255" by (simp add: painted_def)
              have p5: "painted width height ?st5"
                by (rule drawSrc_painted [OF p4]) (simp add: bg)
              show ?thesis
              proof (cases "subencoding AND 8 = 0")
                case True
                with assms(1) Pair Inr False b okb f okf have "st' = ?st5"
                  by (simp add: hextileTile_def Let_def)
                with p5 show ?thesis by simp
              next
                case sub: False
                show ?thesis
                proof (cases "onStream read_u8 ?st5")
                  case r6: (Pair r6 st6)
                  from onStream_painted [OF r6 p5] have p6: "painted width height st6" .
                  show ?thesis
                  proof (cases r6)
                    case (Inl e)
                    with assms(1) Pair Inr False b okb f okf sub r6 p6 show ?thesis
                      by (simp add: hextileTile_def Let_def)
                  next
                    case n: (Inr numSubRect)
                    with assms(1) Pair Inr False b okb f okf sub r6
                    have "hextileSubrects pf width height tx ty (subencoding AND 16 \<noteq> 0)
                            (unat numSubRect) st6 = (res, st')"
                      by (simp add: hextileTile_def Let_def)
                    from hextileSubrects_painted [OF this p6] show ?thesis .
                  qed
                qed
              qed
            qed
          qed
        qed
      qed
    qed
  qed
qed

lemma hextileCols_painted:
  "hextileCols pf width height ty th tx tw st = (res, st') \<Longrightarrow> painted width height st \<Longrightarrow>
   painted width height st'"
proof (induction pf width height ty th tx tw st rule: hextileCols.induct)
  case (1 pf width height ty th tx tw st)
  show ?case
  proof (cases "tx < width")
    case False
    with "1.prems" show ?thesis by (simp add: hextileCols.simps)
  next
    case True
    let ?tw = "if tx = width - width mod 16 then width mod 16 else tw"
    have u: "hextileCols pf width height ty th tx tw st =
      (case hextileTile pf width height tx ty ?tw th st of
         (Inl e, st1) \<Rightarrow> (Inl e, st1)
       | (Inr _, st1) \<Rightarrow> hextileCols pf width height ty th (tx + 16) ?tw st1)"
      by (subst hextileCols.simps) (simp add: True Let_def)
    show ?thesis
    proof (cases "hextileTile pf width height tx ty ?tw th st")
      case (Pair r1 st1)
      from hextileTile_painted [OF Pair "1.prems"(2)] have p1: "painted width height st1" .
      show ?thesis
      proof (cases r1)
        case (Inl e)
        with "1.prems"(1) Pair p1 show ?thesis unfolding u by simp
      next
        case (Inr x)
        with "1.prems"(1) Pair
        have "hextileCols pf width height ty th (tx + 16) ?tw st1 = (res, st')"
          unfolding u by simp
        from "1.IH" [OF True refl Pair [symmetric] Inr this p1] show ?thesis .
      qed
    qed
  qed
qed

lemma hextileRows_painted:
  "hextileRows pf width height ty th st = (res, st') \<Longrightarrow> painted width height st \<Longrightarrow>
   painted width height st'"
proof (induction pf width height ty th st rule: hextileRows.induct)
  case (1 pf width height ty th st)
  show ?case
  proof (cases "ty < height")
    case False
    with "1.prems" show ?thesis by (simp add: hextileRows.simps)
  next
    case True
    let ?th = "if ty = height - height mod 16 then height mod 16 else th"
    have u: "hextileRows pf width height ty th st =
      (case hextileCols pf width height ty ?th 0 16 st of
         (Inl e, st1) \<Rightarrow> (Inl e, st1)
       | (Inr _, st1) \<Rightarrow> hextileRows pf width height (ty + 16) ?th st1)"
      by (subst hextileRows.simps) (simp add: True Let_def)
    show ?thesis
    proof (cases "hextileCols pf width height ty ?th 0 16 st")
      case (Pair r1 st1)
      from hextileCols_painted [OF Pair "1.prems"(2)] have p1: "painted width height st1" .
      show ?thesis
      proof (cases r1)
        case (Inl e)
        with "1.prems"(1) Pair p1 show ?thesis unfolding u by simp
      next
        case (Inr x)
        with "1.prems"(1) Pair
        have "hextileRows pf width height (ty + 16) ?th st1 = (res, st')"
          unfolding u by simp
        from "1.IH" [OF True refl Pair [symmetric] Inr this p1] show ?thesis .
      qed
    qed
  qed
qed

lemma hextileInit_painted: "painted width height (hextileInit s)"
  by (simp add: painted_def hextileInit_def)

lemma hextileInit_transparent: "alpha (hx_img (hextileInit s) p) = 0"
  by (simp add: hextileInit_def)

lemma hextileDecode_painted:
  "hextileDecode pf width height s = (res, st) \<Longrightarrow> painted width height st"
  unfolding hextileDecode_def by (erule hextileRows_painted) (rule hextileInit_painted)

text \<open>
  Claim C6: for a Hextile rectangle of any width and height and any stream on which the
  decoder succeeds, the tiles the loops reach are, in raster order, the 16 by 16 tiles
  of the rectangle, where a tile of the last column is \<open>width mod 16\<close> wide when that
  is not 0 and a tile of the last row is \<open>height mod 16\<close> high when that is not 0
  (\<open>specTiles\<close>); every pixel of the output lies in the destination rectangle of
  at least one draw call (the raw tile or background fill of its tile, or a
  subrectangle); and every pixel of the output image has been written: its alpha is 255
  in the image handed to the PNG encoder, while it is 0 in the fresh image.
\<close>

theorem Hextile_tiles_and_coverage:
  "hextileDecode pf width height s = (Inr (), st) \<longrightarrow>
     hx_tiles st = specTiles width height
   \<and> (\<forall>x y. x < width \<and> y < height \<longrightarrow> (\<exists>r\<in>set (hx_drawn st). inRect r (x, y)))
   \<and> (\<forall>x y. x < width \<and> y < height \<longrightarrow>
          alpha (hx_img (hextileInit s) (x, y)) = 0 \<and> alpha (hx_img st (x, y)) = 255)"
proof
  assume a: "hextileDecode pf width height s = (Inr (), st)"
  then have r: "hextileRows pf width height (16 * 0) 16 (hextileInit s) = (Inr (), st)"
    by (simp add: hextileDecode_def)
  from hextileRows_log [OF r] obtain ds where
    t: "hx_tiles st = hx_tiles (hextileInit s)
           @ concat (map (\<lambda>row. map (\<lambda>col. (16 * col, 16 * row, 16 * col + tileSize width col,
                                             16 * row + tileSize height row))
                                    [0..<tileCount width])
                        [0..<tileCount height])" and
    d: "hx_drawn st = hx_drawn (hextileInit s) @ ds" and
    cv: "\<forall>x y. x < width \<and> 16 * 0 \<le> y \<and> y < height \<longrightarrow> (\<exists>r\<in>set ds. inRect r (x, y))"
    by blast
  from t have tiles: "hx_tiles st = specTiles width height"
    by (simp add: hextileInit_def specTiles_def)
  from d cv have cover: "\<forall>x y. x < width \<and> y < height \<longrightarrow> (\<exists>r\<in>set (hx_drawn st). inRect r (x, y))"
    by (simp add: hextileInit_def)
  from hextileDecode_painted [OF a] have
    p: "\<forall>r\<in>set (hx_drawn st). \<forall>p. inRect r p \<and> fst p < width \<and> snd p < height
          \<longrightarrow> alpha (hx_img st p) = 255"
    by (simp add: painted_def)
  have written: "\<forall>x y. x < width \<and> y < height \<longrightarrow>
          alpha (hx_img (hextileInit s) (x, y)) = 0 \<and> alpha (hx_img st (x, y)) = 255"
  proof (intro allI impI conjI)
    fix x y
    show "alpha (hx_img (hextileInit s) (x, y)) = 0" by (rule hextileInit_transparent)
    assume b: "x < width \<and> y < height"
    with cover obtain r where r: "r \<in> set (hx_drawn st)" and i: "inRect r (x, y)" by blast
    from p r i b show "alpha (hx_img st (x, y)) = 255" by (auto simp del: inRect.simps)
  qed
  from tiles cover written show "hx_tiles st = specTiles width height
   \<and> (\<forall>x y. x < width \<and> y < height \<longrightarrow> (\<exists>r\<in>set (hx_drawn st). inRect r (x, y)))
   \<and> (\<forall>x y. x < width \<and> y < height \<longrightarrow>
          alpha (hx_img (hextileInit s) (x, y)) = 0 \<and> alpha (hx_img st (x, y)) = 255)"
    by (intro conjI)
qed

lemma exampleHextile_pixel1:
  "ReadPixels (NewPixelFormat trueColor32) 1 [0, 9, 9, 9, 1, 0, 1, 2, 3]
   = (Inr [9, 9, 9, 255], [1, 0, 1, 2, 3])"
  by code_simp

lemma exampleHextile_pixel2:
  "ReadPixels (NewPixelFormat trueColor32) 1 [0, 1, 2, 3] = (Inr [1, 2, 3, 255], [])"
  by code_simp

lemma exampleHextile_decodes:
  "fst (hextileDecode (NewPixelFormat trueColor32) 17 1 exampleHextile) = Inr ()"
  by (simp add: hextileDecode_def hextileInit_def exampleHextile_def hextileRows.simps
      hextileCols.simps hextileTile_def onStream_def read_u8_def bind_io_def ReadFull_def
      readColor_def readPixelToUniform_def exampleHextile_pixel1 exampleHextile_pixel2
      drawSrc_def Let_def)

lemma specTiles_17_1: "specTiles 17 1 = [(0, 0, 16, 1), (16, 0, 17, 1)]"
  by code_simp

theorem Hextile_tiles_and_coverage_witness:
  "hextileDecode (NewPixelFormat trueColor32) 17 1 exampleHextile
     = (Inr (), snd (hextileDecode (NewPixelFormat trueColor32) 17 1 exampleHextile))
   \<and> hx_tiles (snd (hextileDecode (NewPixelFormat trueColor32) 17 1 exampleHextile))
       = [(0, 0, 16, 1), (16, 0, 17, 1)]
   \<and> (\<exists>r\<in>set (hx_drawn (snd (hextileDecode (NewPixelFormat trueColor32) 17 1 exampleHextile))).
         inRect r (16, 0))
   \<and> alpha (hx_img (hextileInit exampleHextile) (16, 0)) = 0
   \<and> alpha (hx_img (snd (hextileDecode (NewPixelFormat trueColor32) 17 1 exampleHextile)) (16, 0)) = 255"
proof -
  let ?d = "hextileDecode (NewPixelFormat trueColor32) 17 1 exampleHextile"
  have h: "?d = (Inr (), snd ?d)"
    using exampleHextile_decodes by (simp add: prod_eq_iff)
  from Hextile_tiles_and_coverage [of "NewPixelFormat trueColor32" 17 1 exampleHextile "snd ?d"] h
  have t: "hx_tiles (snd ?d) = specTiles 17 1"
    and c: "\<forall>x y. x < 17 \<and> y < 1 \<longrightarrow> (\<exists>r\<in>set (hx_drawn (snd ?d)). inRect r (x, y))"
    and w: "\<forall>x y. x < 17 \<and> y < 1 \<longrightarrow>
              alpha (hx_img (hextileInit exampleHextile) (x, y)) = 0 \<and> alpha (hx_img (snd ?d) (x, y)) = 255"
    by blast+
  from c have "\<exists>r\<in>set (hx_drawn (snd ?d)). inRect r (16, 0)" by simp
  moreover from w have "alpha (hx_img (hextileInit exampleHextile) (16, 0)) = 0
      \<and> alpha (hx_img (snd ?d) (16, 0)) = 255" by simp
  ultimately show ?thesis using h t by (simp only: specTiles_17_1 simp_thms)
qed

subsection \<open>Pixel conversion\<close>










subsection \<open>ClientCutText\<close>

lemma ClientCutText_Send_effect:
  "((\<exists>char \<in> set (runes (Text m)). 0xFF < char) \<longrightarrow>
      ClientCutTextMsg_Send m conn = (Inl (Err InvalidText), conn))
   \<and> ((\<forall>char \<in> set (runes (Text m)). char \<le> 0xFF) \<and> fst (ClientCutTextMsg_Send m conn) = Inr () \<longrightarrow>
        snd (ClientCutTextMsg_Send m conn) =
          conn\<lparr>c := (c conn)\<lparr>sent := sent (c conn) @ [cct_ID m, 0, 0, 0]
                                     @ put_be32 (of_nat (length (Text m))) @ Text m\<rparr>\<rparr>)
   \<and> ((\<exists>e. fst (ClientCutTextMsg_Send m conn) = Inl e) \<longrightarrow> snd (ClientCutTextMsg_Send m conn) = conn)
   \<and> ((\<forall>char \<in> set (runes (Text m)). char \<le> 0xFF) \<and> writable (c conn)
        \<and> length (Text m) < 2 ^ 32 - 8 \<longrightarrow> fst (ClientCutTextMsg_Send m conn) = Inr ())"
proof (intro conjI impI)
  assume "\<exists>char \<in> set (runes (Text m)). 0xFF < char"
  then show "ClientCutTextMsg_Send m conn = (Inl (Err InvalidText), conn)"
    by (simp add: ClientCutTextMsg_Send_def MaxLatin1_def)
next
  assume "(\<forall>char \<in> set (runes (Text m)). char \<le> 0xFF) \<and> fst (ClientCutTextMsg_Send m conn) = Inr ()"
  then show "snd (ClientCutTextMsg_Send m conn) =
          conn\<lparr>c := (c conn)\<lparr>sent := sent (c conn) @ [cct_ID m, 0, 0, 0]
                                     @ put_be32 (of_nat (length (Text m))) @ Text m\<rparr>\<rparr>"
    by (auto simp: ClientCutTextMsg_Send_def MaxLatin1_def Let_def connWrite_def split: if_splits)
next
  assume "\<exists>e. fst (ClientCutTextMsg_Send m conn) = Inl e"
  then show "snd (ClientCutTextMsg_Send m conn) = conn"
    by (auto simp: ClientCutTextMsg_Send_def MaxLatin1_def Let_def connWrite_def split: if_splits)
next
  assume a: "(\<forall>char \<in> set (runes (Text m)). char \<le> 0xFF) \<and> writable (c conn)
        \<and> length (Text m) < 2 ^ 32 - 8"
  then have "length (Text m) < 2 ^ 32" by simp
  then have u: "unat (of_nat (length (Text m)) :: u32) = length (Text m)"
    by (simp add: unat_of_nat take_bit_nat_eq_self)
  have "unat (8 + of_nat (length (Text m)) :: u32) = 8 + length (Text m)"
    using a u by (simp add: unat_word_ariths)
  then have "\<not> unat (8 + of_nat (length (Text m)) :: u32) < 4" by simp
  with a show "fst (ClientCutTextMsg_Send m conn) = Inr ()"
    by (auto simp: ClientCutTextMsg_Send_def MaxLatin1_def Let_def connWrite_def not_less)
qed

lemma runes_U0100: "runes [0x41, 0xC4, 0x80] = [0x41, 0x100]"
  by code_simp

lemma ClientCutText_U0100_rejected:
  "ClientCutTextMsg_Send exampleBadCutText conn = (Inl (Err InvalidText), conn)"
  by (simp add: ClientCutTextMsg_Send_def exampleBadCutText_def runes_U0100 MaxLatin1_def
      del: runes.simps)

lemma runes_ascii: "runes (replicate n 0x41) = replicate n 0x41"
  by (induction n) (simp_all add: Let_def)

lemma ClientCutText_capacity_wraps:
  "(\<forall>char \<in> set (runes (Text m)). char \<le> 0xFF) \<Longrightarrow> length (Text m) = 2 ^ 32 - 8 \<Longrightarrow>
   ClientCutTextMsg_Send m conn = (Inl (Panic MakeSlice), conn)"
  by (auto simp: ClientCutTextMsg_Send_def MaxLatin1_def Let_def not_less)

text \<open>
  Claim C8 says that a text with a character above 0xFF is refused with InvalidText and
  nothing is written, and that for a text whose characters are all Latin-1 the bytes
  written are exactly the id byte, three padding bytes, the big-endian u32 length and
  the bytes of the text. The first half holds, and a send that succeeds writes the header
  and the bytes of the Go string (\<open>ClientCutText_Send_effect\<close>). But the source
  validates the runes of the string as Latin-1 characters (the field's comment: "Latin-1
  (ISO 8859-1) characters only") and then sends the string's own bytes, which are UTF-8:
  the one-character text U+00E9 goes out as the two bytes C3 A9 with length 2, where its
  Latin-1 form is the single byte E9 with length 1. And the capacity \<open>8 + textLength\<close>
  is computed in uint32: for a text of 4294967288 letters A it wraps to 0, \<open>make\<close>
  panics and nothing is written.
\<close>

theorem ClientCutText_sends_string_bytes:
  "runes (Text exampleLatin1CutText) = [0xE9]
   \<and> ClientCutTextMsg_Send exampleLatin1CutText (exampleConn trueColor32 [])
       = (Inr (), (exampleConn trueColor32 [])
            \<lparr>c := \<lparr>incoming = [], sent = [6, 0, 0, 0, 0, 0, 0, 2, 0xC3, 0xA9], writable = True\<rparr>\<rparr>)
   \<and> set (runes (Text exampleHugeCutText)) = {0x41}
   \<and> ClientCutTextMsg_Send exampleHugeCutText (exampleConn trueColor32 [])
       = (Inl (Panic MakeSlice), exampleConn trueColor32 [])"
proof -
  have 1: "runes (Text exampleLatin1CutText) = [0xE9]"
    by (simp add: exampleLatin1CutText_def cont_def)
  have 2: "ClientCutTextMsg_Send exampleLatin1CutText (exampleConn trueColor32 [])
       = (Inr (), (exampleConn trueColor32 [])
            \<lparr>c := \<lparr>incoming = [], sent = [6, 0, 0, 0, 0, 0, 0, 2, 0xC3, 0xA9], writable = True\<rparr>\<rparr>)"
    by (simp add: ClientCutTextMsg_Send_def exampleLatin1CutText_def MaxLatin1_def
        Let_def connWrite_def exampleConn_def exampleNet_def ClientCutTextMID_def put_be32_def
        cont_def)
  have 3: "set (runes (Text exampleHugeCutText)) = {0x41}"
    by (simp add: exampleHugeCutText_def runes_ascii)
  have "\<forall>char \<in> set (runes (Text exampleHugeCutText)). char \<le> 0xFF"
    unfolding 3 by simp
  moreover have "length (Text exampleHugeCutText) = 2 ^ 32 - 8"
    by (simp add: exampleHugeCutText_def)
  ultimately have 4: "ClientCutTextMsg_Send exampleHugeCutText (exampleConn trueColor32 [])
       = (Inl (Panic MakeSlice), exampleConn trueColor32 [])"
    by (rule ClientCutText_capacity_wraps)
  from 1 2 3 4 show ?thesis by simp
qed

subsection \<open>The encoding map\<close>

lemma dom_addEncodings: "dom (addEncodings es encMap) = dom encMap \<union> Type ` set es"
  by (induction es arbitrary: encMap) auto

lemma addEncodings_entry:
  "addEncodings es encMap t = Some e \<Longrightarrow> (e \<in> set es \<and> Type e = t) \<or> encMap t = Some e"
proof (induction es arbitrary: encMap)
  case Nil
  then show ?case by simp
next
  case (Cons a es)
  from Cons.prems have "addEncodings es (encMap(Type a \<mapsto> a)) t = Some e" by simp
  from Cons.IH [OF this]
  have "(e \<in> set es \<and> Type e = t) \<or> (encMap(Type a \<mapsto> a)) t = Some e" .
  then show ?case by (auto split: if_splits)
qed

lemma SetEncodings_Send_map:
  "SetEncodingsMsg_Send m conn = (res, conn') \<Longrightarrow>
   encodingMap conn' = (case res of Inl e \<Rightarrow> encodingMap conn
                        | Inr u \<Rightarrow> addEncodings (Encodings m) [RawEncType \<mapsto> RawEncoding []])"
  by (auto simp: SetEncodingsMsg_Send_def Let_def connWrite_def split: if_splits)

lemma perform_keeps_Raw:
  assumes raw: "RawEncType \<in> dom (encodingMap conn)"
  shows "RawEncType \<in> dom (encodingMap (perform des png conn op))"
proof (cases op)
  case (SendSetPixelFormat m)
  with raw show ?thesis
    by (auto simp: SetPixelFormatMsg_Send_def connWrite_def split: if_splits)
next
  case (SendSetEncodings m)
  obtain res conn' where r: "SetEncodingsMsg_Send m conn = (res, conn')" by (cases "SetEncodingsMsg_Send m conn")
  from raw SetEncodings_Send_map [OF r] SendSetEncodings r show ?thesis
    by (cases res) (auto simp: dom_addEncodings)
next
  case (SendClientCutText m)
  with raw show ?thesis
    by (auto simp: ClientCutTextMsg_Send_def Let_def connWrite_def split: if_splits)
next
  case ReceiveSetColorMapEntries
  with raw show ?thesis by (simp add: SetColorMapEntriesMsg_Receive_def onReader_encodingMap)
next
  case HandshakeProtocolVersion
  with raw show ?thesis
    by (auto simp: hsProtocolVersion_def Let_def connWrite_def
        dest!: onReader_encodingMap' split: prod.splits sum.splits if_splits)
next
  case (HandshakeVNCAuth pw)
  with raw show ?thesis
    by (auto simp: VNCAuth_Handshake_def connWrite_def
        dest!: onReader_encodingMap' split: prod.splits sum.splits if_splits)
next
  case (ReadCursor rect)
  with raw show ?thesis
    by (auto simp: CursorPseudoEncoding_Read_def onReader_encodingMap split: option.splits)
next
  case (ReadHextile rect)
  with raw show ?thesis
    by (auto simp: HextileEncoding_Read_def Let_def split: option.splits prod.splits sum.splits)
qed

lemma run_keeps_Raw:
  "RawEncType \<in> dom (encodingMap conn) \<Longrightarrow>
   RawEncType \<in> dom (encodingMap (foldl (perform des png) conn ops))"
  by (induction ops arbitrary: conn) (auto simp: perform_keeps_Raw)

text \<open>
  Claim C9: the encoding map of a connection always contains Raw. A connection that
  \<open>NewClientConn\<close> returns has exactly Raw in its map; after a successful SetEncodings
  send the keys of the map are exactly the type codes of the listed encodings and Raw,
  and every entry is a listed encoding of that type code or the Raw decoder the send
  puts in first; and no sequence of the operations on a connection, successful or not,
  removes Raw from the map.
\<close>

theorem encodingMap_contains_Raw:
  "(NewClientConn dial cfg conn0 = Inr conn1 \<longrightarrow> dom (encodingMap conn1) = {RawEncType})
   \<and> (SetEncodingsMsg_Send m conn = (Inr (), conn') \<longrightarrow>
        dom (encodingMap conn') = insert RawEncType (Type ` set (Encodings m))
        \<and> (\<forall>t e. encodingMap conn' t = Some e \<longrightarrow>
              Type e = t \<and> (e \<in> set (Encodings m) \<or> e = RawEncoding [])))
   \<and> (RawEncType \<in> dom (encodingMap conn) \<longrightarrow>
        RawEncType \<in> dom (encodingMap (foldl (perform des png) conn ops)))"
proof (intro conjI impI)
  assume "NewClientConn dial cfg conn0 = Inr conn1"
  then show "dom (encodingMap conn1) = {RawEncType}"
    by (auto simp: NewClientConn_def Let_def split: sum.splits if_splits)
next
  assume a: "SetEncodingsMsg_Send m conn = (Inr (), conn')"
  from SetEncodings_Send_map [OF a]
  have e: "encodingMap conn' = addEncodings (Encodings m) [RawEncType \<mapsto> RawEncoding []]" by simp
  show "dom (encodingMap conn') = insert RawEncType (Type ` set (Encodings m))"
    by (simp add: e dom_addEncodings)
  show "\<forall>t e. encodingMap conn' t = Some e \<longrightarrow>
              Type e = t \<and> (e \<in> set (Encodings m) \<or> e = RawEncoding [])"
    unfolding e by (auto dest!: addEncodings_entry split: if_splits)
next
  assume "RawEncType \<in> dom (encodingMap conn)"
  then show "RawEncType \<in> dom (encodingMap (foldl (perform des png) conn ops))"
    by (rule run_keeps_Raw)
qed

theorem encodingMap_contains_Raw_witness:
  "(\<exists>conn1. NewClientConn exampleDial exampleConfig (Some (exampleNet [])) = Inr conn1
       \<and> dom (encodingMap conn1) = {RawEncType})
   \<and> fst (SetEncodingsMsg_Send exampleSetEncodings (exampleConn trueColor32 [])) = Inr ()
   \<and> dom (encodingMap (snd (SetEncodingsMsg_Send exampleSetEncodings (exampleConn trueColor32 []))))
       = {RawEncType, HextileEncType, CursorPseudoEncType}
   \<and> RawEncType \<in> dom (encodingMap (exampleConn trueColor32 []))
   \<and> RawEncType \<in> dom (encodingMap (foldl (perform xorDes (\<lambda>w h img. Inr []))
         (exampleConn trueColor32 []) [SendSetEncodings exampleSetEncodings, ReceiveSetColorMapEntries]))"
proof -
  obtain conn1 where n: "NewClientConn exampleDial exampleConfig (Some (exampleNet [])) = Inr conn1"
    by (simp add: NewClientConn_def transport_def exampleConfig_def requiredMessages_def)
  obtain conn' where
    s: "SetEncodingsMsg_Send exampleSetEncodings (exampleConn trueColor32 []) = (Inr (), conn')"
    by (simp add: SetEncodingsMsg_Send_def Let_def connWrite_def exampleConn_def exampleNet_def)
  have r: "RawEncType \<in> dom (encodingMap (exampleConn trueColor32 []))"
    by (simp add: exampleConn_def)
  from encodingMap_contains_Raw [of exampleDial exampleConfig "Some (exampleNet [])" conn1
      exampleSetEncodings "exampleConn trueColor32 []" conn'
      xorDes "\<lambda>w h img. Inr []" "[SendSetEncodings exampleSetEncodings, ReceiveSetColorMapEntries]"]
    n s r
  show ?thesis by (auto simp: exampleSetEncodings_def)
qed

subsection \<open>Creating a connection\<close>

lemma registerMessages_required_Some:
  "registerMessages requiredMessages (Some tab) =
     Inr (Some (tab(FramebufferUpdateMID \<mapsto> FramebufferUpdateMsg [],
                    SetColorMapEntriesMID \<mapsto> SetColorMapEntriesMsg 0 [],
                    BellMID \<mapsto> BellMsg,
                    ServerCutTextMID \<mapsto> ServerCutTextMsg [])))"
  by (simp add: requiredMessages_def)

lemma registerMessages_required_None:
  "registerMessages requiredMessages None = Inl (Panic NilMapAssign)"
  by (simp add: requiredMessages_def)

text \<open>
  Claim C10 says that \<open>NewClientConn\<close> writes the four required messages into the
  caller's ServerMessages map and that with a nil map the call does not return normally,
  because the assignment panics. The second half fails where no transport is passed and
  the dial fails: the function returns the dial error before it reaches the
  registration, which is a normal return. The zero-valued configuration, whose empty
  address cannot be dialled, shows it.
\<close>

theorem NewClientConn_nil_map_dial_error:
  "ServerMessages nilMessagesConfig = None
   \<and> NewClientConn exampleDial nilMessagesConfig None = Inl (Err TransportError)"
  by (simp add: NewClientConn_def transport_def nilMessagesConfig_def exampleDial_def)

text \<open>
  Claim C10 as amended: once a transport is at hand (passed in, or dialled with success),
  a non-nil ServerMessages map receives the four required messages under their ids,
  replacing what was stored there and keeping every other entry, and a nil map makes the
  call panic at the assignment; when the dial fails the call returns the dial error; with
  a nil map the call never returns a connection.
\<close>

theorem NewClientConn_required_messages:
  "(ServerMessages cfg = Some tab \<and> transport dial cfg conn0 = Inr nc \<longrightarrow>
      (\<exists>conn. NewClientConn dial cfg conn0 = Inr conn
         \<and> ServerMessages (config conn) =
             Some (tab(FramebufferUpdateMID \<mapsto> FramebufferUpdateMsg [],
                       SetColorMapEntriesMID \<mapsto> SetColorMapEntriesMsg 0 [],
                       BellMID \<mapsto> BellMsg,
                       ServerCutTextMID \<mapsto> ServerCutTextMsg []))))
   \<and> (ServerMessages cfg = None \<and> transport dial cfg conn0 = Inr nc \<longrightarrow>
        NewClientConn dial cfg conn0 = Inl (Panic NilMapAssign))
   \<and> (ServerMessages cfg = None \<and> transport dial cfg conn0 = Inl e \<longrightarrow>
        NewClientConn dial cfg conn0 = Inl e)
   \<and> (ServerMessages cfg = None \<longrightarrow> (\<forall>conn. NewClientConn dial cfg conn0 \<noteq> Inr conn))"
  by (auto simp: NewClientConn_def Let_def registerMessages_required_Some
      registerMessages_required_None split: sum.splits)

theorem NewClientConn_required_messages_witness:
  "(\<exists>conn. NewClientConn exampleDial exampleConfig (Some (exampleNet [])) = Inr conn
       \<and> ServerMessages (config conn) =
             Some [FramebufferUpdateMID \<mapsto> FramebufferUpdateMsg [],
                   SetColorMapEntriesMID \<mapsto> SetColorMapEntriesMsg 0 [],
                   BellMID \<mapsto> BellMsg,
                   ServerCutTextMID \<mapsto> ServerCutTextMsg []])
   \<and> NewClientConn exampleDial nilMessagesConfig (Some (exampleNet [])) = Inl (Panic NilMapAssign)
   \<and> NewClientConn exampleDial nilMessagesConfig None = Inl (Err TransportError)"
proof -
  have s: "ServerMessages exampleConfig = Some Map.empty" by (simp add: exampleConfig_def)
  have n: "ServerMessages nilMessagesConfig = None" by (simp add: nilMessagesConfig_def)
  have t1: "transport exampleDial exampleConfig (Some (exampleNet [])) = Inr (exampleNet [])"
    by (simp add: transport_def)
  have t2: "transport exampleDial nilMessagesConfig (Some (exampleNet [])) = Inr (exampleNet [])"
    by (simp add: transport_def)
  have t3: "transport exampleDial nilMessagesConfig None = Inl (Err TransportError)"
    by (simp add: transport_def exampleDial_def nilMessagesConfig_def)
  from NewClientConn_required_messages [of exampleConfig Map.empty exampleDial "Some (exampleNet [])" "exampleNet []"]
    NewClientConn_required_messages [of nilMessagesConfig _ exampleDial "Some (exampleNet [])" "exampleNet []"]
    NewClientConn_required_messages [of nilMessagesConfig _ exampleDial None _ "Err TransportError"]
    s n t1 t2 t3
  show ?thesis by simp
qed

end
